theory Spec2Isabelle
  imports Main
begin

section \<open>Data model\<close>

text \<open>
  The inventory store of \<^verbatim>\<open>pkg/inventory/model/client.go\<close>. The \<^verbatim>\<open>Client\<close> is
  embedded as a record that every method takes and returns. The relational mapper
  (\<^verbatim>\<open>Table\<close>), the SQL driver and \<^verbatim>\<open>liberr.Wrap\<close> are parameters of every
  method (record \<open>backend\<close>): nothing is assumed about what they return. The
  \<^verbatim>\<open>Journal\<close> and the \<^verbatim>\<open>Watch\<close> are defined as the specification describes them.
\<close>

datatype error = TxInvalidError | NotFound | MappingError | Wrapped error

text \<open>
  A \<^verbatim>\<open>Model\<close>: the type-scoped name (\<^verbatim>\<open>table.Name(model)\<close>), the primary key
  (\<^verbatim>\<open>Pk()\<close>), the label mapping (\<^verbatim>\<open>Labels()\<close>, listed in the order in which
  \<^verbatim>\<open>range\<close> visits it) and the remaining fields.
\<close>

record model =
  kind :: string
  pk :: string
  labels :: "(string \<times> string) list"
  content :: string

record label =
  Parent :: string
  Kind :: string
  Name :: string
  Value :: string

datatype action = Created | Updated | Deleted

record event =
  Model :: model
  Action :: action
  PriorModel :: "model option"

text \<open>
  A \<^verbatim>\<open>Watch\<close>: the record type it targets, whether it has been started for live
  delivery, and the events its handler has received, oldest first. The journal keeps
  the watches in the order of registration, and a \<^verbatim>\<open>*Watch\<close> is the position of
  the watch in that list.
\<close>

record watch =
  target :: string
  started :: bool
  handled :: "event list"

record journal =
  staged :: "event list"
  watchList :: "watch list"

text \<open>\<^verbatim>\<open>table.DB\<close>: the connection \<^verbatim>\<open>r.db\<close> or the open transaction \<^verbatim>\<open>r.tx\<close>.\<close>

datatype handle = DB | TX nat

text \<open>\<^verbatim>\<open>Tx{client, ref}\<close>; there is one client, so a \<^verbatim>\<open>Tx\<close> is its \<^verbatim>\<open>ref\<close>.\<close>

datatype Tx = Tx (ref: nat)

text \<open>
  Every call the methods make on a lock, on the backend, on the journal or on a watch,
  in the order in which it is made.
\<close>

datatype effect =
    Lock | Unlock | DbLock | DbUnlock
  | SqlBegin nat | SqlCommit nat | SqlRollback nat
  | TableGet handle model | TableList handle string
  | TableInsert handle model | TableUpdate handle model | TableDelete handle model
  | LabelList handle string string | LabelInsert handle label | LabelDelete handle label
  | JournalCreated model | JournalUpdated model model | JournalDeleted model
  | JournalCommit | JournalUnstage | JournalWatch nat
  | WatchNotify nat event | WatchStart nat

text \<open>
  The collaborators of the client. Each call takes the backend's state and returns
  the state it leaves together with Go's \<^verbatim>\<open>error\<close> (\<open>None\<close> is \<^verbatim>\<open>nil\<close>), so a
  call may fail at any time, before or after it has changed the backend.
  \<open>sql_Begin\<close> is \<^verbatim>\<open>r.db.Begin()\<close>, given the identity of the \<^verbatim>\<open>sql.Tx\<close> it
  allocates; \<open>tx_Commit\<close> and \<open>tx_Rollback\<close> are \<^verbatim>\<open>r.tx.Commit()\<close> and
  \<^verbatim>\<open>r.tx.Rollback()\<close>. The \<open>table_\<close> functions are the \<^verbatim>\<open>Table\<close> methods on a
  model (\<open>table_List\<close> with empty \<^verbatim>\<open>ListOptions\<close>, for a type name); the
  \<open>label_\<close> functions are the same methods on a \<^verbatim>\<open>Label\<close> (\<open>label_List\<close> with
  the predicate \<^verbatim>\<open>And(Eq("Kind", k), Eq("Parent", p))\<close>).
\<close>

record 'db backend =
  wrap :: "error \<Rightarrow> error"
  sql_Begin :: "'db \<Rightarrow> nat \<Rightarrow> 'db \<times> error option"
  tx_Commit :: "'db \<Rightarrow> nat \<Rightarrow> 'db \<times> error option"
  tx_Rollback :: "'db \<Rightarrow> nat \<Rightarrow> 'db \<times> error option"
  table_Get :: "'db \<Rightarrow> handle \<Rightarrow> model \<Rightarrow> 'db \<times> (error + model)"
  table_List :: "'db \<Rightarrow> handle \<Rightarrow> string \<Rightarrow> 'db \<times> (error + model list)"
  table_Insert :: "'db \<Rightarrow> handle \<Rightarrow> model \<Rightarrow> 'db \<times> error option"
  table_Update :: "'db \<Rightarrow> handle \<Rightarrow> model \<Rightarrow> 'db \<times> error option"
  table_Delete :: "'db \<Rightarrow> handle \<Rightarrow> model \<Rightarrow> 'db \<times> error option"
  label_List :: "'db \<Rightarrow> handle \<Rightarrow> string \<Rightarrow> string \<Rightarrow> 'db \<times> (error + label list)"
  label_Insert :: "'db \<Rightarrow> handle \<Rightarrow> label \<Rightarrow> 'db \<times> error option"
  label_Delete :: "'db \<Rightarrow> handle \<Rightarrow> label \<Rightarrow> 'db \<times> error option"

text \<open>
  The \<^verbatim>\<open>Client\<close>: \<open>mu\<close> is the embedded \<^verbatim>\<open>sync.RWMutex\<close> (held or not),
  \<open>dbMutex\<close> the write-serialization mutex, \<open>db\<close> the backend behind \<^verbatim>\<open>r.db\<close>,
  \<open>tx\<close> the current \<^verbatim>\<open>*sql.Tx\<close> (\<open>None\<close> is \<^verbatim>\<open>nil\<close>). \<open>nextRef\<close> is the
  identity the next \<^verbatim>\<open>sql.Tx\<close> gets (Go allocates a fresh pointer each time) and
  \<open>log\<close> the effects so far.
\<close>

record 'db client =
  mu :: bool
  dbMutex :: bool
  db :: 'db
  tx :: "nat option"
  journal :: journal
  nextRef :: nat
  log :: "effect list"

text \<open>
  What a call comes to: it returns a value, returns an error, never returns because it
  waits for a mutex that is held (\<open>Blocked\<close>), or stops the process by unlocking a
  mutex that is not held (\<open>Fatal\<close>, Go's \<^verbatim>\<open>sync: unlock of unlocked mutex\<close>).
\<close>

datatype 'a result = Ok 'a | Err error | Blocked | Fatal

section \<open>Journal and Watch\<close>

text \<open>
  Modelled from the spec: the source of \<^verbatim>\<open>Journal\<close> and \<^verbatim>\<open>Watch\<close> (journal.go) is
  not part of the sources. Section 4.2: \<^verbatim>\<open>Created\<close>, \<^verbatim>\<open>Updated\<close> and
  \<^verbatim>\<open>Deleted\<close> append a staged entry; \<^verbatim>\<open>Commit\<close> dispatches, for every staged
  entry in FIFO order, an event to every live watch whose target type matches the
  entry's model type, then clears the staged entries; \<^verbatim>\<open>Unstage\<close> discards the
  staged entries without dispatch; \<^verbatim>\<open>copy\<close> is a detached snapshot of a model;
  \<^verbatim>\<open>Watch\<close> registers a new watch that is not yet started. Section 4.3: delivery to
  the handler is synchronous, without a queue.
\<close>

definition journal_Created :: "journal \<Rightarrow> model \<Rightarrow> journal" where
  "journal_Created j m =
     j\<lparr>staged := staged j @ [\<lparr>Model = m, Action = Created, PriorModel = None\<rparr>]\<rparr>"

definition journal_Updated :: "journal \<Rightarrow> model \<Rightarrow> model \<Rightarrow> journal" where
  "journal_Updated j current m =
     j\<lparr>staged := staged j @ [\<lparr>Model = m, Action = Updated, PriorModel = Some current\<rparr>]\<rparr>"

definition journal_Deleted :: "journal \<Rightarrow> model \<Rightarrow> journal" where
  "journal_Deleted j m =
     j\<lparr>staged := staged j @ [\<lparr>Model = m, Action = Deleted, PriorModel = None\<rparr>]\<rparr>"

definition journal_copy :: "model \<Rightarrow> model" where
  "journal_copy m = m"

definition notify :: "watch \<Rightarrow> event \<Rightarrow> watch" where
  "notify w e = w\<lparr>handled := handled w @ [e]\<rparr>"

definition dispatch :: "event \<Rightarrow> watch \<Rightarrow> watch" where
  "dispatch e w = (if started w \<and> target w = kind (Model e) then notify w e else w)"

definition journal_Commit :: "journal \<Rightarrow> journal" where
  "journal_Commit j =
     j\<lparr>watchList := fold (\<lambda>e ws. map (dispatch e) ws) (staged j) (watchList j),
       staged := []\<rparr>"

definition journal_Unstage :: "journal \<Rightarrow> journal" where
  "journal_Unstage j = j\<lparr>staged := []\<rparr>"

definition journal_Watch :: "journal \<Rightarrow> model \<Rightarrow> journal \<times> (error + nat)" where
  "journal_Watch j m =
     (let w = \<lparr>target = kind m, started = False, handled = []\<rparr>
      in (j\<lparr>watchList := watchList j @ [w]\<rparr>, Inr (length (watchList j))))"

text \<open>\<^verbatim>\<open>watch.notify(event)\<close> and \<^verbatim>\<open>watch.Start()\<close> on the watch at position \<open>i\<close>.\<close>

definition on_watch :: "nat \<Rightarrow> (watch \<Rightarrow> watch) \<Rightarrow> watch list \<Rightarrow> watch list" where
  "on_watch i f ws = (if i < length ws then ws[i := f (ws ! i)] else ws)"

definition watch_notify :: "journal \<Rightarrow> nat \<Rightarrow> event \<Rightarrow> journal" where
  "watch_notify j i e = j\<lparr>watchList := on_watch i (\<lambda>w. notify w e) (watchList j)\<rparr>"

definition watch_Start :: "journal \<Rightarrow> nat \<Rightarrow> journal" where
  "watch_Start j i = j\<lparr>watchList := on_watch i (\<lambda>w. w\<lparr>started := True\<rparr>) (watchList j)\<rparr>"

text \<open>The events the handler of the watch at position \<open>i\<close> has received.\<close>

definition received :: "journal \<Rightarrow> nat \<Rightarrow> event list" where
  "received j i = (if i < length (watchList j) then handled (watchList j ! i) else [])"

definition live :: "journal \<Rightarrow> nat \<Rightarrow> bool" where
  "live j i = (i < length (watchList j) \<and> started (watchList j ! i))"

section \<open>Client\<close>

definition emit :: "effect \<Rightarrow> 'db client \<Rightarrow> 'db client" where
  "emit e c = c\<lparr>log := log c @ [e]\<rparr>"

text \<open>\<^verbatim>\<open>table.DB\<close> as Insert, Update and Delete choose it.\<close>

definition table_DB :: "'db client \<Rightarrow> handle" where
  "table_DB c = (case tx c of None \<Rightarrow> DB | Some t \<Rightarrow> TX t)"

text \<open>
  The deferred calls of Insert, Update and Delete, last registered first:
  \<^verbatim>\<open>r.dbMutex.Unlock()\<close> when the call took the autocommit branch, then
  \<^verbatim>\<open>r.Unlock()\<close>.
\<close>

definition deferred :: "bool \<Rightarrow> 'db client \<Rightarrow> 'db client" where
  "deferred auto c =
     (let c = (if auto then emit DbUnlock (c\<lparr>dbMutex := False\<rparr>) else c)
      in emit Unlock (c\<lparr>mu := False\<rparr>))"

text \<open>\<^verbatim>\<open>Client.Get\<close> and \<^verbatim>\<open>Client.List\<close>: no lock, the connection \<^verbatim>\<open>r.db\<close>.\<close>

definition Get :: "'db backend \<Rightarrow> 'db client \<Rightarrow> model \<Rightarrow> 'db client \<times> model result" where
  "Get E c m =
     (let (d, r) = table_Get E (db c) DB m;
          c = emit (TableGet DB m) (c\<lparr>db := d\<rparr>)
      in (c, case r of Inl e \<Rightarrow> Err e | Inr m' \<Rightarrow> Ok m'))"

definition List_models ::
  "'db backend \<Rightarrow> 'db client \<Rightarrow> string \<Rightarrow> 'db client \<times> model list result" where
  "List_models E c k =
     (let (d, r) = table_List E (db c) DB k;
          c = emit (TableList DB k) (c\<lparr>db := d\<rparr>)
      in (c, case r of Inl e \<Rightarrow> Err e | Inr ms \<Rightarrow> Ok ms))"

text \<open>
  \<^verbatim>\<open>Client.Begin\<close>. \<^verbatim>\<open>r.dbMutex.Lock()\<close> is taken while \<^verbatim>\<open>r.Lock()\<close> is held; when
  \<^verbatim>\<open>r.db.Begin()\<close> fails the method returns with \<^verbatim>\<open>dbMutex\<close> still held.
\<close>

definition Begin :: "'db backend \<Rightarrow> 'db client \<Rightarrow> 'db client \<times> Tx result" where
  "Begin E c =
     (if mu c then (c, Blocked) else
      let c = emit Lock (c\<lparr>mu := True\<rparr>) in
      if dbMutex c then (c, Blocked) else
      let c = emit DbLock (c\<lparr>dbMutex := True\<rparr>);
          t = nextRef c;
          (d, err) = sql_Begin E (db c) t;
          c = emit (SqlBegin t) (c\<lparr>db := d\<rparr>)
      in case err of
           Some e \<Rightarrow> (emit Unlock (c\<lparr>mu := False\<rparr>), Err e)
         | None \<Rightarrow>
             (emit Unlock (c\<lparr>tx := Some t, nextRef := Suc t, mu := False\<rparr>), Ok (Tx t)))"

text \<open>\<^verbatim>\<open>Client.insertLabels\<close>: the loop over \<^verbatim>\<open>model.Labels()\<close>, then the method.\<close>

fun insertLabels_range ::
  "'db backend \<Rightarrow> handle \<Rightarrow> model \<Rightarrow> (string \<times> string) list \<Rightarrow> 'db client
   \<Rightarrow> 'db client \<times> error option" where
  "insertLabels_range E table m [] c = (c, None)"
| "insertLabels_range E table m ((l, v) # rest) c =
     (let lb = \<lparr>Parent = pk m, Kind = kind m, Name = l, Value = v\<rparr>;
          (d, err) = label_Insert E (db c) table lb;
          c = emit (LabelInsert table lb) (c\<lparr>db := d\<rparr>)
      in case err of
           Some e \<Rightarrow> (c, Some (wrap E e))
         | None \<Rightarrow> insertLabels_range E table m rest c)"

definition insertLabels ::
  "'db backend \<Rightarrow> handle \<Rightarrow> model \<Rightarrow> 'db client \<Rightarrow> 'db client \<times> error option" where
  "insertLabels E table m c = insertLabels_range E table m (labels m) c"

text \<open>\<^verbatim>\<open>Client.deleteLabels\<close>: the loop over the listed labels, then the method.\<close>

fun deleteLabels_range ::
  "'db backend \<Rightarrow> handle \<Rightarrow> label list \<Rightarrow> 'db client \<Rightarrow> 'db client \<times> error option" where
  "deleteLabels_range E table [] c = (c, None)"
| "deleteLabels_range E table (lb # rest) c =
     (let (d, err) = label_Delete E (db c) table lb;
          c = emit (LabelDelete table lb) (c\<lparr>db := d\<rparr>)
      in case err of
           Some e \<Rightarrow> (c, Some (wrap E e))
         | None \<Rightarrow> deleteLabels_range E table rest c)"

definition deleteLabels ::
  "'db backend \<Rightarrow> handle \<Rightarrow> model \<Rightarrow> 'db client \<Rightarrow> 'db client \<times> error option" where
  "deleteLabels E table m c =
     (let (d, r) = label_List E (db c) table (kind m) (pk m);
          c = emit (LabelList table (kind m) (pk m)) (c\<lparr>db := d\<rparr>)
      in case r of
           Inl e \<Rightarrow> (c, Some (wrap E e))
         | Inr list \<Rightarrow> deleteLabels_range E table list c)"

text \<open>\<^verbatim>\<open>Client.replaceLabels\<close>.\<close>

definition replaceLabels ::
  "'db backend \<Rightarrow> handle \<Rightarrow> model \<Rightarrow> 'db client \<Rightarrow> 'db client \<times> error option" where
  "replaceLabels E table m c =
     (let (c, err) = deleteLabels E table m c
      in case err of
           Some e \<Rightarrow> (c, Some (wrap E e))
         | None \<Rightarrow>
             (let (c, err) = insertLabels E table m c
              in case err of
                   Some e \<Rightarrow> (c, Some (wrap E e))
                 | None \<Rightarrow> (c, None)))"

text \<open>
  \<^verbatim>\<open>Client.Insert\<close>. \<open>Insert_body\<close> is the method from \<^verbatim>\<open>table.Insert(model)\<close> to
  its \<^verbatim>\<open>return\<close>; \<open>Insert\<close> puts the locking before it and the deferred calls after.
\<close>

definition Insert_body ::
  "'db backend \<Rightarrow> handle \<Rightarrow> 'db client \<Rightarrow> model \<Rightarrow> 'db client \<times> unit result" where
  "Insert_body E table c m =
     (let (d, err) = table_Insert E (db c) table m;
          c = emit (TableInsert table m) (c\<lparr>db := d\<rparr>)
      in case err of
           Some e \<Rightarrow> (c, Err (wrap E e))
         | None \<Rightarrow>
             (let (c, err) = insertLabels E table m c
              in case err of
                   Some e \<Rightarrow> (c, Err (wrap E e))
                 | None \<Rightarrow>
                     (let c = emit (JournalCreated m)
                                (c\<lparr>journal := journal_Created (journal c) m\<rparr>);
                          c = (if tx c = None
                               then emit JournalCommit
                                      (c\<lparr>journal := journal_Commit (journal c)\<rparr>)
                               else c)
                      in (c, Ok ()))))"

definition Insert :: "'db backend \<Rightarrow> 'db client \<Rightarrow> model \<Rightarrow> 'db client \<times> unit result" where
  "Insert E c m =
     (if mu c then (c, Blocked) else
      let c = emit Lock (c\<lparr>mu := True\<rparr>);
          auto = (tx c = None)
      in if auto \<and> dbMutex c then (c, Blocked) else
         let c = (if auto then emit DbLock (c\<lparr>dbMutex := True\<rparr>) else c);
             (c, r) = Insert_body E (table_DB c) c m
         in (deferred auto c, r))"

text \<open>\<^verbatim>\<open>Client.Update\<close>, in the same two parts.\<close>

definition Update_body ::
  "'db backend \<Rightarrow> handle \<Rightarrow> 'db client \<Rightarrow> model \<Rightarrow> 'db client \<times> unit result" where
  "Update_body E table c m =
     (let (d, r) = table_Get E (db c) table (journal_copy m);
          c = emit (TableGet table (journal_copy m)) (c\<lparr>db := d\<rparr>)
      in case r of
           Inl e \<Rightarrow> (c, Err (wrap E e))
         | Inr current \<Rightarrow>
             (let (d, err) = table_Update E (db c) table m;
                  c = emit (TableUpdate table m) (c\<lparr>db := d\<rparr>)
              in case err of
                   Some e \<Rightarrow> (c, Err (wrap E e))
                 | None \<Rightarrow>
                     (let (c, err) = replaceLabels E table m c
                      in case err of
                           Some e \<Rightarrow> (c, Err (wrap E e))
                         | None \<Rightarrow>
                             (let c = emit (JournalUpdated current m)
                                        (c\<lparr>journal := journal_Updated (journal c) current m\<rparr>);
                                  c = (if tx c = None
                                       then emit JournalCommit
                                              (c\<lparr>journal := journal_Commit (journal c)\<rparr>)
                                       else c)
                              in (c, Ok ())))))"

definition Update :: "'db backend \<Rightarrow> 'db client \<Rightarrow> model \<Rightarrow> 'db client \<times> unit result" where
  "Update E c m =
     (if mu c then (c, Blocked) else
      let c = emit Lock (c\<lparr>mu := True\<rparr>);
          auto = (tx c = None)
      in if auto \<and> dbMutex c then (c, Blocked) else
         let c = (if auto then emit DbLock (c\<lparr>dbMutex := True\<rparr>) else c);
             (c, r) = Update_body E (table_DB c) c m
         in (deferred auto c, r))"

text \<open>\<^verbatim>\<open>Client.Delete\<close>, in the same two parts.\<close>

definition Delete_body ::
  "'db backend \<Rightarrow> handle \<Rightarrow> 'db client \<Rightarrow> model \<Rightarrow> 'db client \<times> unit result" where
  "Delete_body E table c m =
     (let (d, err) = table_Delete E (db c) table m;
          c = emit (TableDelete table m) (c\<lparr>db := d\<rparr>)
      in case err of
           Some e \<Rightarrow> (c, Err (wrap E e))
         | None \<Rightarrow>
             (let (c, err) = deleteLabels E table m c
              in case err of
                   Some e \<Rightarrow> (c, Err (wrap E e))
                 | None \<Rightarrow>
                     (let c = emit (JournalDeleted m)
                                (c\<lparr>journal := journal_Deleted (journal c) m\<rparr>);
                          c = (if tx c = None
                               then emit JournalCommit
                                      (c\<lparr>journal := journal_Commit (journal c)\<rparr>)
                               else c)
                      in (c, Ok ()))))"

definition Delete :: "'db backend \<Rightarrow> 'db client \<Rightarrow> model \<Rightarrow> 'db client \<times> unit result" where
  "Delete E c m =
     (if mu c then (c, Blocked) else
      let c = emit Lock (c\<lparr>mu := True\<rparr>);
          auto = (tx c = None)
      in if auto \<and> dbMutex c then (c, Blocked) else
         let c = (if auto then emit DbLock (c\<lparr>dbMutex := True\<rparr>) else c);
             (c, r) = Delete_body E (table_DB c) c m
         in (deferred auto c, r))"

text \<open>
  \<^verbatim>\<open>Client.Watch\<close>: the loop that replays the listed rows, then the method. The list
  is read through the connection \<^verbatim>\<open>r.db\<close>, whether or not a transaction is open.
\<close>

fun Watch_range :: "nat \<Rightarrow> model list \<Rightarrow> 'db client \<Rightarrow> 'db client" where
  "Watch_range w [] c = c"
| "Watch_range w (m # list) c =
     (let e = \<lparr>Model = m, Action = Created, PriorModel = None\<rparr>;
          c = emit (WatchNotify w e) (c\<lparr>journal := watch_notify (journal c) w e\<rparr>)
      in Watch_range w list c)"

definition Watch :: "'db backend \<Rightarrow> 'db client \<Rightarrow> model \<Rightarrow> 'db client \<times> nat result" where
  "Watch E c m =
     (if mu c then (c, Blocked) else
      let c = emit Lock (c\<lparr>mu := True\<rparr>);
          (j, r) = journal_Watch (journal c) m
      in case r of
           Inl e \<Rightarrow> (emit Unlock (c\<lparr>journal := j, mu := False\<rparr>), Err (wrap E e))
         | Inr w \<Rightarrow>
             (let c = emit (JournalWatch w) (c\<lparr>journal := j\<rparr>);
                  (d, r) = table_List E (db c) DB (kind m);
                  c = emit (TableList DB (kind m)) (c\<lparr>db := d\<rparr>)
              in case r of
                   Inl e \<Rightarrow> (emit Unlock (c\<lparr>mu := False\<rparr>), Err (wrap E e))
                 | Inr list \<Rightarrow>
                     (let c = Watch_range w list c;
                          c = emit (WatchStart w)
                                (c\<lparr>journal := watch_Start (journal c) w\<rparr>)
                      in (emit Unlock (c\<lparr>mu := False\<rparr>), Ok w))))"

text \<open>
  The deferred function of \<^verbatim>\<open>commit\<close> and \<^verbatim>\<open>end\<close>:
  \<^verbatim>\<open>r.dbMutex.Unlock(); r.tx = nil\<close>, followed by the deferred \<^verbatim>\<open>r.Unlock()\<close>.
  Unlocking a mutex that is not held stops the process.
\<close>

definition deferred_tx :: "'db client \<Rightarrow> 'a result \<Rightarrow> 'db client \<times> 'a result" where
  "deferred_tx c r =
     (if \<not> dbMutex c then (c, Fatal) else
      let c = emit DbUnlock (c\<lparr>dbMutex := False\<rparr>);
          c = c\<lparr>tx := None\<rparr>
      in (emit Unlock (c\<lparr>mu := False\<rparr>), r))"

text \<open>\<^verbatim>\<open>Client.commit\<close>, which is \<^verbatim>\<open>Tx.Commit\<close>.\<close>

definition commit :: "'db backend \<Rightarrow> 'db client \<Rightarrow> Tx \<Rightarrow> 'db client \<times> unit result" where
  "commit E c t =
     (if mu c then (c, Blocked) else
      let c = emit Lock (c\<lparr>mu := True\<rparr>) in
      if tx c = None \<or> tx c \<noteq> Some (ref t)
      then (emit Unlock (c\<lparr>mu := False\<rparr>), Err (wrap E TxInvalidError))
      else
        let (d, err) = tx_Commit E (db c) (ref t);
            c = emit (SqlCommit (ref t)) (c\<lparr>db := d\<rparr>)
        in case err of
             Some e \<Rightarrow> deferred_tx c (Err (wrap E e))
           | None \<Rightarrow>
               (let c = emit JournalCommit (c\<lparr>journal := journal_Commit (journal c)\<rparr>)
                in deferred_tx c (Ok ())))"

text \<open>\<^verbatim>\<open>Client.end\<close>, which is \<^verbatim>\<open>Tx.End\<close>.\<close>

definition end_tx :: "'db backend \<Rightarrow> 'db client \<Rightarrow> Tx \<Rightarrow> 'db client \<times> unit result" where
  "end_tx E c t =
     (if mu c then (c, Blocked) else
      let c = emit Lock (c\<lparr>mu := True\<rparr>) in
      if tx c = None \<or> tx c \<noteq> Some (ref t)
      then (emit Unlock (c\<lparr>mu := False\<rparr>), Err (wrap E TxInvalidError))
      else
        let (d, err) = tx_Rollback E (db c) (ref t);
            c = emit (SqlRollback (ref t)) (c\<lparr>db := d\<rparr>)
        in case err of
             Some e \<Rightarrow> deferred_tx c (Err (wrap E e))
           | None \<Rightarrow>
               (let c = emit JournalUnstage (c\<lparr>journal := journal_Unstage (journal c)\<rparr>)
                in deferred_tx c (Ok ())))"

text \<open>
  \<^verbatim>\<open>Client.GetForUpdate\<close>. The result of \<^verbatim>\<open>tx.End()\<close> is dropped; the error returned
  is the one of \<^verbatim>\<open>Get\<close>, not wrapped. The method takes no lock of its own:
  \<^verbatim>\<open>r.Begin()\<close>, \<^verbatim>\<open>Table{r.db}.Get(model)\<close> and \<^verbatim>\<open>tx.End()\<close> each run on their own,
  and calls of other callers can come between them. \<open>GetForUpdate\<close> is the call with
  no other call in between; \<open>GetForUpdate_among\<close>, below, is the call among the calls
  of other callers.
\<close>

definition GetForUpdate ::
  "'db backend \<Rightarrow> 'db client \<Rightarrow> model \<Rightarrow> 'db client \<times> (model \<times> Tx) result" where
  "GetForUpdate E c m =
     (case Begin E c of
        (c, Blocked) \<Rightarrow> (c, Blocked)
      | (c, Fatal) \<Rightarrow> (c, Fatal)
      | (c, Err e) \<Rightarrow> (c, Err (wrap E e))
      | (c, Ok t) \<Rightarrow>
          (let (d, r) = table_Get E (db c) DB m;
               c = emit (TableGet DB m) (c\<lparr>db := d\<rparr>)
           in case r of
                Inr m' \<Rightarrow> (c, Ok (m', t))
              | Inl e \<Rightarrow>
                  (case end_tx E c t of
                     (c, Blocked) \<Rightarrow> (c, Blocked)
                   | (c, Fatal) \<Rightarrow> (c, Fatal)
                   | (c, _) \<Rightarrow> (c, Err e))))"

section \<open>Sequences of calls\<close>

text \<open>
  Every method above but \<^verbatim>\<open>GetForUpdate\<close> holds \<^verbatim>\<open>r.Lock()\<close> from its first statement
  to its return (\<^verbatim>\<open>Get\<close> and \<^verbatim>\<open>List\<close> take no lock and only read), so what concurrent
  callers can do to the client is a sequence of whole calls. A call that is \<open>Blocked\<close>
  leaves the client as it is when the caller starts to wait. \<^verbatim>\<open>GetForUpdate\<close> is up to
  three such calls, \<^verbatim>\<open>Begin\<close>, \<^verbatim>\<open>Get\<close> and \<^verbatim>\<open>End\<close>: \<open>CallGetForUpdate\<close> is their
  run with nothing in between.
\<close>

datatype call =
    CallGet model | CallList string | CallGetForUpdate model | CallBegin
  | CallInsert model | CallUpdate model | CallDelete model | CallWatch model
  | CallCommit Tx | CallEnd Tx

fun step :: "'db backend \<Rightarrow> call \<Rightarrow> 'db client \<Rightarrow> 'db client" where
  "step E (CallGet m) c = fst (Get E c m)"
| "step E (CallList k) c = fst (List_models E c k)"
| "step E (CallGetForUpdate m) c = fst (GetForUpdate E c m)"
| "step E CallBegin c = fst (Begin E c)"
| "step E (CallInsert m) c = fst (Insert E c m)"
| "step E (CallUpdate m) c = fst (Update E c m)"
| "step E (CallDelete m) c = fst (Delete E c m)"
| "step E (CallWatch m) c = fst (Watch E c m)"
| "step E (CallCommit t) c = fst (commit E c t)"
| "step E (CallEnd t) c = fst (end_tx E c t)"

definition run :: "'db backend \<Rightarrow> call list \<Rightarrow> 'db client \<Rightarrow> 'db client" where
  "run E calls c = fold (step E) calls c"


text \<open>The effects a call (or a sequence of calls) adds to the log of \<open>c\<close>.\<close>

definition effects :: "'db client \<Rightarrow> 'db client \<Rightarrow> effect list" where
  "effects c c' = drop (length (log c)) (log c')"

text \<open>The effects that stage, dispatch or discard journal entries.\<close>

fun journal_effect :: "effect \<Rightarrow> bool" where
  "journal_effect (JournalCreated m) = True"
| "journal_effect (JournalUpdated current m) = True"
| "journal_effect (JournalDeleted m) = True"
| "journal_effect JournalCommit = True"
| "journal_effect JournalUnstage = True"
| "journal_effect e = False"

text \<open>The effects of the label helpers.\<close>

fun label_effect :: "effect \<Rightarrow> bool" where
  "label_effect (LabelList h k p) = True"
| "label_effect (LabelInsert h lb) = True"
| "label_effect (LabelDelete h lb) = True"
| "label_effect e = False"

section \<open>An in-memory backend\<close>

text \<open>
  Modelled from the spec: the relational mapper (\<^verbatim>\<open>Table\<close>) and the storage engine are
  not part of the sources. Sections 2, 4.1, 6 and 7: one table per model type and a
  Label table with the columns Parent, Kind, Name and Value; \<^verbatim>\<open>Get\<close> locates a row by
  primary key and fails with NotFound if it is absent; \<^verbatim>\<open>List\<close> returns the rows in
  insertion order, filtered by the predicate; a mapper failure (constraint violation,
  I/O failure) is a MappingError and leaves the backend as it was; the engine is
  single-writer with explicit begin, commit and rollback, and reads outside the
  transaction see the last committed state.

  \<open>rows\<close> and \<open>lbls\<close> are the committed tables, \<open>work\<close> the open transaction (its
  identity and its working copy of both tables). \<open>fuse\<close> stands for an I/O failure:
  \<open>Some n\<close> lets \<open>n\<close> more backend calls through and fails the next one, once.
  A commit or a rollback that fails loses the transaction.
\<close>

record memdb =
  rows :: "model list"
  lbls :: "label list"
  work :: "(nat \<times> model list \<times> label list) option"
  fuse :: "nat option"

definition tick :: "memdb \<Rightarrow> memdb \<times> bool" where
  "tick d =
     (case fuse d of
        None \<Rightarrow> (d, False)
      | Some 0 \<Rightarrow> (d\<lparr>fuse := None\<rparr>, True)
      | Some (Suc n) \<Rightarrow> (d\<lparr>fuse := Some n\<rparr>, False))"

text \<open>The tables a handle reads, and whether it may write.\<close>

definition view :: "memdb \<Rightarrow> handle \<Rightarrow> (model list \<times> label list) option" where
  "view d h =
     (case h of
        DB \<Rightarrow> Some (rows d, lbls d)
      | TX t \<Rightarrow>
          (case work d of
             None \<Rightarrow> None
           | Some (t', rs, ls) \<Rightarrow> if t' = t then Some (rs, ls) else None))"

definition writable :: "memdb \<Rightarrow> handle \<Rightarrow> (model list \<times> label list) option" where
  "writable d h = (if h = DB \<and> work d \<noteq> None then None else view d h)"

definition store :: "memdb \<Rightarrow> handle \<Rightarrow> model list \<times> label list \<Rightarrow> memdb" where
  "store d h tables =
     (case h of
        DB \<Rightarrow> d\<lparr>rows := fst tables, lbls := snd tables\<rparr>
      | TX t \<Rightarrow> d\<lparr>work := Some (t, tables)\<rparr>)"

definition same_key :: "model \<Rightarrow> model \<Rightarrow> bool" where
  "same_key m r = (kind r = kind m \<and> pk r = pk m)"

definition mem_sql_Begin :: "memdb \<Rightarrow> nat \<Rightarrow> memdb \<times> error option" where
  "mem_sql_Begin d t =
     (let (d, failed) = tick d
      in if failed \<or> work d \<noteq> None then (d, Some MappingError)
         else (d\<lparr>work := Some (t, rows d, lbls d)\<rparr>, None))"

definition mem_tx_Commit :: "memdb \<Rightarrow> nat \<Rightarrow> memdb \<times> error option" where
  "mem_tx_Commit d t =
     (let (d, failed) = tick d
      in case view d (TX t) of
           None \<Rightarrow> (d, Some MappingError)
         | Some (rs, ls) \<Rightarrow>
             if failed then (d\<lparr>work := None\<rparr>, Some MappingError)
             else (d\<lparr>rows := rs, lbls := ls, work := None\<rparr>, None))"

definition mem_tx_Rollback :: "memdb \<Rightarrow> nat \<Rightarrow> memdb \<times> error option" where
  "mem_tx_Rollback d t =
     (let (d, failed) = tick d
      in case view d (TX t) of
           None \<Rightarrow> (d, Some MappingError)
         | Some (rs, ls) \<Rightarrow>
             if failed then (d\<lparr>work := None\<rparr>, Some MappingError)
             else (d\<lparr>work := None\<rparr>, None))"

definition mem_table_Get :: "memdb \<Rightarrow> handle \<Rightarrow> model \<Rightarrow> memdb \<times> (error + model)" where
  "mem_table_Get d h m =
     (let (d, failed) = tick d
      in case view d h of
           None \<Rightarrow> (d, Inl MappingError)
         | Some (rs, ls) \<Rightarrow>
             if failed then (d, Inl MappingError)
             else (case find (same_key m) rs of
                     None \<Rightarrow> (d, Inl NotFound)
                   | Some r \<Rightarrow> (d, Inr r)))"

definition mem_table_List :: "memdb \<Rightarrow> handle \<Rightarrow> string \<Rightarrow> memdb \<times> (error + model list)" where
  "mem_table_List d h k =
     (let (d, failed) = tick d
      in case view d h of
           None \<Rightarrow> (d, Inl MappingError)
         | Some (rs, ls) \<Rightarrow>
             if failed then (d, Inl MappingError)
             else (d, Inr (filter (\<lambda>r. kind r = k) rs)))"

definition mem_table_Insert :: "memdb \<Rightarrow> handle \<Rightarrow> model \<Rightarrow> memdb \<times> error option" where
  "mem_table_Insert d h m =
     (let (d, failed) = tick d
      in case writable d h of
           None \<Rightarrow> (d, Some MappingError)
         | Some (rs, ls) \<Rightarrow>
             if failed \<or> find (same_key m) rs \<noteq> None then (d, Some MappingError)
             else (store d h (rs @ [m], ls), None))"

definition mem_table_Update :: "memdb \<Rightarrow> handle \<Rightarrow> model \<Rightarrow> memdb \<times> error option" where
  "mem_table_Update d h m =
     (let (d, failed) = tick d
      in case writable d h of
           None \<Rightarrow> (d, Some MappingError)
         | Some (rs, ls) \<Rightarrow>
             if failed then (d, Some MappingError)
             else if find (same_key m) rs = None then (d, Some NotFound)
             else (store d h (map (\<lambda>r. if same_key m r then m else r) rs, ls), None))"

definition mem_table_Delete :: "memdb \<Rightarrow> handle \<Rightarrow> model \<Rightarrow> memdb \<times> error option" where
  "mem_table_Delete d h m =
     (let (d, failed) = tick d
      in case writable d h of
           None \<Rightarrow> (d, Some MappingError)
         | Some (rs, ls) \<Rightarrow>
             if failed then (d, Some MappingError)
             else (store d h (filter (\<lambda>r. \<not> same_key m r) rs, ls), None))"

definition keyed :: "string \<Rightarrow> string \<Rightarrow> label \<Rightarrow> bool" where
  "keyed k p lb = (Kind lb = k \<and> Parent lb = p)"

definition mem_label_List ::
  "memdb \<Rightarrow> handle \<Rightarrow> string \<Rightarrow> string \<Rightarrow> memdb \<times> (error + label list)" where
  "mem_label_List d h k p =
     (let (d, failed) = tick d
      in case view d h of
           None \<Rightarrow> (d, Inl MappingError)
         | Some (rs, ls) \<Rightarrow>
             if failed then (d, Inl MappingError)
             else (d, Inr (filter (keyed k p) ls)))"

definition mem_label_Insert :: "memdb \<Rightarrow> handle \<Rightarrow> label \<Rightarrow> memdb \<times> error option" where
  "mem_label_Insert d h lb =
     (let (d, failed) = tick d
      in case writable d h of
           None \<Rightarrow> (d, Some MappingError)
         | Some (rs, ls) \<Rightarrow>
             if failed then (d, Some MappingError)
             else (store d h (rs, ls @ [lb]), None))"

definition mem_label_Delete :: "memdb \<Rightarrow> handle \<Rightarrow> label \<Rightarrow> memdb \<times> error option" where
  "mem_label_Delete d h lb =
     (let (d, failed) = tick d
      in case writable d h of
           None \<Rightarrow> (d, Some MappingError)
         | Some (rs, ls) \<Rightarrow>
             if failed then (d, Some MappingError)
             else (store d h (rs, remove1 lb ls), None))"

text \<open>
  Modelled from the spec: \<^verbatim>\<open>liberr.Wrap\<close> (pkg/error) is not part of the sources.
  Section 7: every internal error is wrapped with context and returned.
\<close>

definition mem :: "memdb backend" where
  "mem =
     \<lparr>wrap = Wrapped,
      sql_Begin = mem_sql_Begin, tx_Commit = mem_tx_Commit, tx_Rollback = mem_tx_Rollback,
      table_Get = mem_table_Get, table_List = mem_table_List,
      table_Insert = mem_table_Insert, table_Update = mem_table_Update,
      table_Delete = mem_table_Delete,
      label_List = mem_label_List, label_Insert = mem_label_Insert,
      label_Delete = mem_label_Delete\<rparr>"

text \<open>The client after \<^verbatim>\<open>Open(true)\<close>: an empty store, with the given fuse.\<close>

definition opened :: "nat option \<Rightarrow> memdb client" where
  "opened f =
     \<lparr>mu = False, dbMutex = False,
      db = \<lparr>rows = [], lbls = [], work = None, fuse = f\<rparr>,
      tx = None, journal = \<lparr>staged = [], watchList = []\<rparr>, nextRef = 0, log = []\<rparr>"

text \<open>The label rows that mirror the label mapping of a model.\<close>

definition labels_of :: "model \<Rightarrow> label list" where
  "labels_of m =
     map (\<lambda>(l, v). \<lparr>Parent = pk m, Kind = kind m, Name = l, Value = v\<rparr>) (labels m)"

section \<open>Notions used in the statements\<close>

text \<open>A list of effects that neither stages, dispatches nor discards a journal entry.\<close>

definition quiet :: "effect list \<Rightarrow> bool" where
  "quiet xs = list_all (\<lambda>e. \<not> journal_effect e) xs"

text \<open>
  The client of Insert, Update and Delete after their locking: \<^verbatim>\<open>r.Lock()\<close>, and
  \<^verbatim>\<open>r.dbMutex.Lock()\<close> when no transaction is open.
\<close>

definition enter :: "'db client \<Rightarrow> 'db client" where
  "enter c =
     (if tx c = None then emit DbLock ((emit Lock (c\<lparr>mu := True\<rparr>))\<lparr>dbMutex := True\<rparr>)
      else emit Lock (c\<lparr>mu := True\<rparr>))"

text \<open>What \<^verbatim>\<open>Journal.Commit\<close> hands to the watch at position \<open>i\<close>.\<close>

definition dispatched :: "journal \<Rightarrow> nat \<Rightarrow> event list" where
  "dispatched j i =
     (if live j i then filter (\<lambda>e. target (watchList j ! i) = kind (Model e)) (staged j)
      else [])"

text \<open>Two versions of one record, and the clients of the examples.\<close>

definition vmA :: model where
  "vmA = \<lparr>kind = ''vm'', pk = ''a'', labels = [(''env'', ''prod'')], content = ''on''\<rparr>"

definition vmB :: model where
  "vmB = \<lparr>kind = ''vm'', pk = ''a'', labels = [(''env'', ''stage'')], content = ''off''\<rparr>"

definition stored :: "memdb client" where
  "stored = run mem [CallInsert vmA] (opened None)"

definition in_tx :: "memdb client" where
  "in_tx = run mem [CallBegin] stored"

text \<open>
  A client with a live watch on the type of \<open>vmA\<close> and an open transaction in which
  \<open>vmA\<close> has been inserted; the fuse fails the next backend call.
\<close>

definition vmC :: model where
  "vmC = \<lparr>kind = ''vm'', pk = ''c'', labels = [], content = ''on''\<rparr>"

definition failing_tx :: "memdb client" where
  "failing_tx = run mem [CallWatch vmA, CallBegin, CallInsert vmA] (opened (Some 4))"

text \<open>A client whose backend lets \<open>n\<close> more calls through and fails the next one.\<close>

definition fused :: "nat \<Rightarrow> memdb client \<Rightarrow> memdb client" where
  "fused n c = c\<lparr>db := (db c)\<lparr>fuse := Some n\<rparr>\<rparr>"

text \<open>The effects on the write-serialization mutex.\<close>

fun lease_effect :: "effect \<Rightarrow> bool" where
  "lease_effect DbLock = True"
| "lease_effect DbUnlock = True"
| "lease_effect e = False"

definition leasefree :: "effect list \<Rightarrow> bool" where
  "leasefree xs = list_all (\<lambda>e. \<not> lease_effect e) xs"

text \<open>The synthetic event of \<^verbatim>\<open>Client.Watch\<close> for a listed row.\<close>

definition created :: "model \<Rightarrow> event" where
  "created m = \<lparr>Model = m, Action = Created, PriorModel = None\<rparr>"

text \<open>A store with two records of one type and one of another.\<close>

definition vmD :: model where
  "vmD = \<lparr>kind = ''vm'', pk = ''d'', labels = [(''env'', ''test'')], content = ''off''\<rparr>"

definition hostA :: model where
  "hostA = \<lparr>kind = ''host'', pk = ''a'', labels = [], content = ''up''\<rparr>"

definition populated :: "memdb client" where
  "populated = run mem [CallInsert vmA, CallInsert hostA, CallInsert vmD] (opened None)"

text \<open>
  The Label rows stored for the key (Kind, Parent) of a model, as the handle that
  Insert, Update and Delete would use sees them.
\<close>

definition label_rows :: "memdb client \<Rightarrow> model \<Rightarrow> label list" where
  "label_rows c m =
     (case view (db c) (table_DB c) of
        None \<Rightarrow> []
      | Some (rs, ls) \<Rightarrow> filter (keyed (kind m) (pk m)) ls)"

text \<open>
  An autocommit Delete whose \<^verbatim>\<open>table.Delete\<close> succeeded and whose \<^verbatim>\<open>deleteLabels\<close>
  failed (the fourth backend call): the row of \<open>vmA\<close> is gone, its label row is not.
\<close>

definition orphaned :: "memdb client" where
  "orphaned = run mem [CallInsert vmA, CallDelete vmA] (opened (Some 3))"

definition vmE :: model where
  "vmE = \<lparr>kind = ''vm'', pk = ''a'', labels = [(''tier'', ''gold'')], content = ''off''\<rparr>"

text \<open>The label table a handle sees.\<close>

definition lview :: "memdb \<Rightarrow> handle \<Rightarrow> label list option" where
  "lview d h = map_option snd (view d h)"





section \<open>Frame properties of the helpers\<close>

lemma emit_simps [simp]:
  "mu (emit e c) = mu c" "dbMutex (emit e c) = dbMutex c" "db (emit e c) = db c"
  "tx (emit e c) = tx c" "journal (emit e c) = journal c" "nextRef (emit e c) = nextRef c"
  "log (emit e c) = log c @ [e]"
  by (simp_all add: emit_def)

lemma insertLabels_range_frame:
  "insertLabels_range E h m ls c = (c', r) \<Longrightarrow>
     mu c' = mu c \<and> dbMutex c' = dbMutex c \<and> tx c' = tx c \<and> journal c' = journal c
     \<and> nextRef c' = nextRef c \<and> (\<exists>xs. log c' = log c @ xs \<and> list_all label_effect xs)"
proof (induction ls arbitrary: c)
  case Nil
  then show ?case by simp
next
  case (Cons a ls)
  obtain l v where a: "a = (l, v)" by (cases a)
  show ?case using Cons.prems Cons.IH
    by (fastforce simp: a Let_def split: prod.splits option.splits)
qed

lemma deleteLabels_range_frame:
  "deleteLabels_range E h ls c = (c', r) \<Longrightarrow>
     mu c' = mu c \<and> dbMutex c' = dbMutex c \<and> tx c' = tx c \<and> journal c' = journal c
     \<and> nextRef c' = nextRef c \<and> (\<exists>xs. log c' = log c @ xs \<and> list_all label_effect xs)"
proof (induction ls arbitrary: c)
  case Nil
  then show ?case by simp
next
  case (Cons a ls)
  show ?case using Cons.prems Cons.IH
    by (fastforce simp: Let_def split: prod.splits option.splits)
qed

lemma insertLabels_frame:
  "insertLabels E h m c = (c', r) \<Longrightarrow>
     mu c' = mu c \<and> dbMutex c' = dbMutex c \<and> tx c' = tx c \<and> journal c' = journal c
     \<and> nextRef c' = nextRef c \<and> (\<exists>xs. log c' = log c @ xs \<and> list_all label_effect xs)"
  unfolding insertLabels_def by (rule insertLabels_range_frame)

lemma deleteLabels_frame:
  "deleteLabels E h m c = (c', r) \<Longrightarrow>
     mu c' = mu c \<and> dbMutex c' = dbMutex c \<and> tx c' = tx c \<and> journal c' = journal c
     \<and> nextRef c' = nextRef c \<and> (\<exists>xs. log c' = log c @ xs \<and> list_all label_effect xs)"
  unfolding deleteLabels_def
  by (fastforce simp: Let_def split: prod.splits sum.splits dest!: deleteLabels_range_frame)

lemma replaceLabels_frame:
  "replaceLabels E h m c = (c', r) \<Longrightarrow>
     mu c' = mu c \<and> dbMutex c' = dbMutex c \<and> tx c' = tx c \<and> journal c' = journal c
     \<and> nextRef c' = nextRef c \<and> (\<exists>xs. log c' = log c @ xs \<and> list_all label_effect xs)"
  unfolding replaceLabels_def
  by (fastforce simp: Let_def split: prod.splits option.splits
      dest!: deleteLabels_frame insertLabels_frame)

lemma label_effect_quiet: "list_all label_effect xs \<Longrightarrow> quiet xs"
  unfolding quiet_def by (induction xs) (auto elim: label_effect.elims)

lemma quiet_simps [simp]:
  "quiet []" "quiet (e # xs) = (\<not> journal_effect e \<and> quiet xs)"
  "quiet (xs @ ys) = (quiet xs \<and> quiet ys)"
  by (simp_all add: quiet_def)

text \<open>What the body of Insert leaves, by its result.\<close>

lemma Insert_body_frame:
  assumes "Insert_body E h c m = (c', r)"
  shows "mu c' = mu c \<and> dbMutex c' = dbMutex c \<and> tx c' = tx c \<and> nextRef c' = nextRef c"
  using assms unfolding Insert_body_def
  by (auto simp: Let_def split: prod.splits option.splits if_splits dest!: insertLabels_frame)

lemma Insert_body_Ok:
  assumes "Insert_body E h c m = (c', Ok u)"
  shows "\<exists>pre. quiet pre \<and>
      log c' = log c @ pre @ JournalCreated m # (if tx c = None then [JournalCommit] else []) \<and>
      journal c' = (if tx c = None then journal_Commit (journal_Created (journal c) m)
                    else journal_Created (journal c) m)"
  using assms unfolding Insert_body_def
  by (auto simp: Let_def split: prod.splits option.splits if_splits
      dest!: insertLabels_frame dest: label_effect_quiet)

lemma Insert_body_not_Ok:
  assumes "Insert_body E h c m = (c', r)" "r \<noteq> Ok ()"
  shows "\<exists>xs. quiet xs \<and> log c' = log c @ xs \<and> journal c' = journal c"
  using assms unfolding Insert_body_def
  by (auto simp: Let_def split: prod.splits option.splits if_splits
      dest!: insertLabels_frame dest: label_effect_quiet)

section \<open>Insert, Update and Delete\<close>

lemma Update_body_frame:
  assumes "Update_body E h c m = (c', r)"
  shows "mu c' = mu c \<and> dbMutex c' = dbMutex c \<and> tx c' = tx c \<and> nextRef c' = nextRef c"
  using assms unfolding Update_body_def
  by (auto simp: Let_def split: prod.splits option.splits sum.splits if_splits
      dest!: replaceLabels_frame)


lemma Update_body_not_Ok:
  assumes "Update_body E h c m = (c', r)" "r \<noteq> Ok ()"
  shows "\<exists>xs. quiet xs \<and> log c' = log c @ xs \<and> journal c' = journal c"
  using assms unfolding Update_body_def
  by (auto simp: Let_def split: prod.splits option.splits sum.splits if_splits
      dest!: replaceLabels_frame dest: label_effect_quiet)

lemma Delete_body_frame:
  assumes "Delete_body E h c m = (c', r)"
  shows "mu c' = mu c \<and> dbMutex c' = dbMutex c \<and> tx c' = tx c \<and> nextRef c' = nextRef c"
  using assms unfolding Delete_body_def
  by (auto simp: Let_def split: prod.splits option.splits if_splits dest!: deleteLabels_frame)


lemma Delete_body_not_Ok:
  assumes "Delete_body E h c m = (c', r)" "r \<noteq> Ok ()"
  shows "\<exists>xs. quiet xs \<and> log c' = log c @ xs \<and> journal c' = journal c"
  using assms unfolding Delete_body_def
  by (auto simp: Let_def split: prod.splits option.splits if_splits
      dest!: deleteLabels_frame dest: label_effect_quiet)

lemma enter_simps [simp]:
  "mu (enter c) = True" "tx (enter c) = tx c" "db (enter c) = db c"
  "journal (enter c) = journal c" "nextRef (enter c) = nextRef c"
  "dbMutex (enter c) = (tx c = None \<or> dbMutex c)"
  "log (enter c) = log c @ Lock # (if tx c = None then [DbLock] else [])"
  "table_DB (enter c) = table_DB c"
  by (auto simp: enter_def table_DB_def)

lemma Insert_Blocked:
  "mu c \<or> tx c = None \<and> dbMutex c \<Longrightarrow> snd (Insert E c m) = Blocked \<and> effects c (fst (Insert E c m)) \<in> {[], [Lock]}
    \<and> journal (fst (Insert E c m)) = journal c"
  by (auto simp: Insert_def Let_def effects_def)

lemma Insert_enter:
  "\<not> mu c \<Longrightarrow> \<not> (tx c = None \<and> dbMutex c) \<Longrightarrow>
   Insert E c m = (case Insert_body E (table_DB c) (enter c) m of
                     (c2, r) \<Rightarrow> (deferred (tx c = None) c2, r))"
  by (auto simp: Insert_def Let_def enter_def table_DB_def split: prod.splits)

lemma Update_enter:
  "\<not> mu c \<Longrightarrow> \<not> (tx c = None \<and> dbMutex c) \<Longrightarrow>
   Update E c m = (case Update_body E (table_DB c) (enter c) m of
                     (c2, r) \<Rightarrow> (deferred (tx c = None) c2, r))"
  by (auto simp: Update_def Let_def enter_def table_DB_def split: prod.splits)

lemma Delete_enter:
  "\<not> mu c \<Longrightarrow> \<not> (tx c = None \<and> dbMutex c) \<Longrightarrow>
   Delete E c m = (case Delete_body E (table_DB c) (enter c) m of
                     (c2, r) \<Rightarrow> (deferred (tx c = None) c2, r))"
  by (auto simp: Delete_def Let_def enter_def table_DB_def split: prod.splits)

lemma deferred_simps [simp]:
  "mu (deferred a c) = False" "tx (deferred a c) = tx c" "db (deferred a c) = db c"
  "journal (deferred a c) = journal c" "nextRef (deferred a c) = nextRef c"
  "dbMutex (deferred a c) = (\<not> a \<and> dbMutex c)"
  "log (deferred a c) = log c @ (if a then [DbUnlock] else []) @ [Unlock]"
  by (auto simp: deferred_def Let_def)

lemma effects_append [simp]: "log c' = log c @ xs \<Longrightarrow> effects c c' = xs"
  by (simp add: effects_def)

lemma Insert_auto_Ok:
  assumes "tx c = None" "Insert E c m = (c', Ok ())"
  shows "(\<exists>pre. quiet pre \<and>
            effects c c' = pre @ [JournalCreated m, JournalCommit, DbUnlock, Unlock]) \<and>
         journal c' = journal_Commit (journal_Created (journal c) m)"
proof -
  have free: "\<not> mu c" "\<not> (tx c = None \<and> dbMutex c)"
    using assms by (auto simp: Insert_def Let_def split: if_splits)
  obtain c2 where b: "Insert_body E (table_DB c) (enter c) m = (c2, Ok ())"
    and c': "c' = deferred True c2"
    using assms Insert_enter [OF free, of E m] by (auto split: prod.splits)
  from Insert_body_Ok [OF b] assms(1) obtain pre where
    "quiet pre" "log c2 = log c @ Lock # DbLock # pre @ [JournalCreated m, JournalCommit]"
    "journal c2 = journal_Commit (journal_Created (journal c) m)" by auto
  then show ?thesis unfolding c'
    by (auto intro!: exI [of _ "Lock # DbLock # pre"])
qed



lemma watchList_staging [simp]:
  "watchList (journal_Created j m) = watchList j"
  "watchList (journal_Updated j current m) = watchList j"
  "watchList (journal_Deleted j m) = watchList j"
  "watchList (journal_Unstage j) = watchList j"
  by (simp_all add: journal_Created_def journal_Updated_def journal_Deleted_def
      journal_Unstage_def)



lemma effects_self [simp]: "effects c c = []"
  by (simp add: effects_def)





text \<open>Every way \<open>commit\<close> and \<open>end_tx\<close> can go.\<close>

lemma commit_cases:
  "commit E c t =
     (if mu c then (c, Blocked)
      else if tx c \<noteq> Some (ref t)
        then (c\<lparr>log := log c @ [Lock, Unlock]\<rparr>, Err (wrap E TxInvalidError))
      else case tx_Commit E (db c) (ref t) of
        (d, Some e) \<Rightarrow>
          if dbMutex c
          then (c\<lparr>db := d, dbMutex := False, tx := None,
                  log := log c @ [Lock, SqlCommit (ref t), DbUnlock, Unlock]\<rparr>, Err (wrap E e))
          else (c\<lparr>db := d, mu := True, log := log c @ [Lock, SqlCommit (ref t)]\<rparr>, Fatal)
      | (d, None) \<Rightarrow>
          if dbMutex c
          then (c\<lparr>db := d, dbMutex := False, tx := None, journal := journal_Commit (journal c),
                  log := log c @ [Lock, SqlCommit (ref t), JournalCommit, DbUnlock, Unlock]\<rparr>,
                Ok ())
          else (c\<lparr>db := d, mu := True, journal := journal_Commit (journal c),
                  log := log c @ [Lock, SqlCommit (ref t), JournalCommit]\<rparr>, Fatal))"
  by (auto simp: commit_def deferred_tx_def emit_def Let_def split: prod.splits option.splits)

lemma end_tx_cases:
  "end_tx E c t =
     (if mu c then (c, Blocked)
      else if tx c \<noteq> Some (ref t)
        then (c\<lparr>log := log c @ [Lock, Unlock]\<rparr>, Err (wrap E TxInvalidError))
      else case tx_Rollback E (db c) (ref t) of
        (d, Some e) \<Rightarrow>
          if dbMutex c
          then (c\<lparr>db := d, dbMutex := False, tx := None,
                  log := log c @ [Lock, SqlRollback (ref t), DbUnlock, Unlock]\<rparr>, Err (wrap E e))
          else (c\<lparr>db := d, mu := True, log := log c @ [Lock, SqlRollback (ref t)]\<rparr>, Fatal)
      | (d, None) \<Rightarrow>
          if dbMutex c
          then (c\<lparr>db := d, dbMutex := False, tx := None, journal := journal_Unstage (journal c),
                  log := log c @ [Lock, SqlRollback (ref t), JournalUnstage, DbUnlock, Unlock]\<rparr>,
                Ok ())
          else (c\<lparr>db := d, mu := True, journal := journal_Unstage (journal c),
                  log := log c @ [Lock, SqlRollback (ref t), JournalUnstage]\<rparr>, Fatal))"
  by (auto simp: end_tx_def deferred_tx_def emit_def Let_def split: prod.splits option.splits)


section \<open>What the journal dispatches\<close>

lemma dispatch_fields [simp]:
  "started (dispatch e w) = started w" "target (dispatch e w) = target w"
  by (simp_all add: dispatch_def notify_def)

lemma fold_dispatch_fields [simp]:
  "started (fold dispatch es w) = started w" "target (fold dispatch es w) = target w"
  by (induction es arbitrary: w) simp_all

lemma handled_fold_dispatch:
  "handled (fold dispatch es w) =
     handled w @ (if started w then filter (\<lambda>e. target w = kind (Model e)) es else [])"
  by (induction es arbitrary: w) (auto simp: dispatch_def notify_def)

lemma fold_map_dispatch:
  "fold (\<lambda>e ws. map (dispatch e) ws) es ws = map (fold dispatch es) ws"
  by (induction es arbitrary: ws) (simp_all add: comp_def)

lemma watchList_Commit: "watchList (journal_Commit j) = map (fold dispatch (staged j)) (watchList j)"
  by (simp add: journal_Commit_def fold_map_dispatch)

lemma staged_Commit [simp]: "staged (journal_Commit j) = []"
  by (simp add: journal_Commit_def)

lemma received_Commit:
  "received (journal_Commit j) i = received j i @ dispatched j i"
  by (simp add: received_def dispatched_def live_def watchList_Commit handled_fold_dispatch)

lemma live_Commit [simp]: "live (journal_Commit j) i = live j i"
  by (auto simp: live_def watchList_Commit)


lemma pair_fst: "snd p = r \<Longrightarrow> p = (fst p, r)"
  by (cases p) simp

section \<open>The claims\<close>

lemma received_staging [simp]:
  "received (journal_Created j m) i = received j i"
  "received (journal_Updated j current m) i = received j i"
  "received (journal_Deleted j m) i = received j i"
  "received (journal_Unstage j) i = received j i"
  by (simp_all add: received_def)













text \<open>
  C10. When the backend commit fails inside \<^verbatim>\<open>Tx.Commit\<close>, the call returns the
  wrapped error after its deferred function has released \<^verbatim>\<open>dbMutex\<close> and cleared
  \<^verbatim>\<open>r.tx\<close>; the journal is untouched, so the entries stay staged, and the next
  \<^verbatim>\<open>Journal.Commit\<close> (here, of a following autocommit Insert) dispatches them.
\<close>

theorem failed_commit_keeps_staged:
  assumes "\<not> mu c" and "dbMutex c" and "tx c = Some (ref t)"
    and "tx_Commit E (db c) (ref t) = (d, Some e)"
    and "commit E c t = (c', r)"
  shows "r = Err (wrap E e) \<and> tx c' = None \<and> \<not> dbMutex c' \<and> \<not> mu c' \<and>
     effects c c' = [Lock, SqlCommit (ref t), DbUnlock, Unlock] \<and>
     journal c' = journal c \<and>
     (\<forall>i. received (journal_Commit (journal c')) i =
            received (journal c) i @ dispatched (journal c) i) \<and>
     (\<forall>m c''. Insert E c' m = (c'', Ok ()) \<longrightarrow>
        (\<forall>i. received (journal c'') i =
               received (journal c) i @ dispatched (journal_Created (journal c) m) i))"
proof -
  have c': "c' = c\<lparr>db := d, dbMutex := False, tx := None,
      log := log c @ [Lock, SqlCommit (ref t), DbUnlock, Unlock]\<rparr>"
    and r: "r = Err (wrap E e)"
    using assms unfolding commit_cases by auto
  have j: "journal c' = journal c" and t: "tx c' = None" by (simp_all add: c')
  have flush: "received (journal c'') i =
      received (journal c) i @ dispatched (journal_Created (journal c) m) i"
    if "Insert E c' m = (c'', Ok ())" for m c'' i
    using Insert_auto_Ok [OF t that] by (simp add: j received_Commit)
  show ?thesis using r flush assms(1) by (simp add: c' received_Commit)
qed

theorem failed_commit_keeps_staged_witness:
  "\<not> mu failing_tx \<and> dbMutex failing_tx \<and> tx failing_tx = Some (ref (Tx 0)) \<and>
   snd (tx_Commit mem (db failing_tx) (ref (Tx 0))) = Some MappingError \<and>
   snd (commit mem failing_tx (Tx 0)) = Err (wrap mem MappingError) \<and>
   staged (journal (fst (commit mem failing_tx (Tx 0)))) =
     [\<lparr>Model = vmA, Action = Created, PriorModel = None\<rparr>] \<and>
   tx (fst (commit mem failing_tx (Tx 0))) = None \<and>
   received (journal (run mem [CallCommit (Tx 0), CallInsert vmC] failing_tx)) 0 =
     [\<lparr>Model = vmA, Action = Created, PriorModel = None\<rparr>,
      \<lparr>Model = vmC, Action = Created, PriorModel = None\<rparr>]"
proof -
  have h: "\<not> mu failing_tx" "dbMutex failing_tx" "tx failing_tx = Some (ref (Tx 0))"
    by code_simp+
  have k: "tx_Commit mem (db failing_tx) (ref (Tx 0)) =
      (fst (tx_Commit mem (db failing_tx) (ref (Tx 0))), Some MappingError)"
    by (rule pair_fst) code_simp
  have s: "staged (journal failing_tx) = [\<lparr>Model = vmA, Action = Created, PriorModel = None\<rparr>]"
    by code_simp
  have f: "received (journal (run mem [CallCommit (Tx 0), CallInsert vmC] failing_tx)) 0 =
     [\<lparr>Model = vmA, Action = Created, PriorModel = None\<rparr>,
      \<lparr>Model = vmC, Action = Created, PriorModel = None\<rparr>]"
    by code_simp
  show ?thesis
    using f failed_commit_keeps_staged [OF h k, of "fst (commit mem failing_tx (Tx 0))"
        "snd (commit mem failing_tx (Tx 0))"] h k s
    by (metis prod.collapse snd_conv)
qed

lemma end_tx_discards:
  assumes "\<not> mu c" and "dbMutex c" and "tx c = Some (ref t)"
    and "tx_Rollback E (db c) (ref t) = (d, None)"
  shows "end_tx E c t =
     (c\<lparr>db := d, dbMutex := False, tx := None, journal := journal_Unstage (journal c),
        log := log c @ [Lock, SqlRollback (ref t), JournalUnstage, DbUnlock, Unlock]\<rparr>, Ok ())"
  using assms unfolding end_tx_cases by simp


text \<open>
  C3, where the code departs from it. When the backend rollback succeeds, \<^verbatim>\<open>Tx.End\<close>
  discards the staged entries as well (\<open>end_tx_discards\<close>). When the rollback returns
  an error, \<^verbatim>\<open>Client.end\<close> returns before \<^verbatim>\<open>Journal.Unstage\<close> while its deferred
  function still clears \<^verbatim>\<open>r.tx\<close> and releases \<^verbatim>\<open>dbMutex\<close>: the transaction is
  over, its entry stays staged, and the next \<^verbatim>\<open>Journal.Commit\<close> hands it to the
  watch, for a row that was never committed.
\<close>

theorem end_rollback_error_keeps_staged:
  "tx failing_tx = Some (ref (Tx 0)) \<and>
   staged (journal failing_tx) = [\<lparr>Model = vmA, Action = Created, PriorModel = None\<rparr>] \<and>
   snd (tx_Rollback mem (db failing_tx) (ref (Tx 0))) = Some MappingError \<and>
   snd (end_tx mem failing_tx (Tx 0)) = Err (Wrapped MappingError) \<and>
   tx (fst (end_tx mem failing_tx (Tx 0))) = None \<and>
   \<not> dbMutex (fst (end_tx mem failing_tx (Tx 0))) \<and>
   JournalUnstage \<notin> set (effects failing_tx (fst (end_tx mem failing_tx (Tx 0)))) \<and>
   staged (journal (fst (end_tx mem failing_tx (Tx 0)))) =
     [\<lparr>Model = vmA, Action = Created, PriorModel = None\<rparr>] \<and>
   received (journal (run mem [CallEnd (Tx 0), CallInsert vmC] failing_tx)) 0 =
     [\<lparr>Model = vmA, Action = Created, PriorModel = None\<rparr>,
      \<lparr>Model = vmC, Action = Created, PriorModel = None\<rparr>] \<and>
   rows (db (run mem [CallEnd (Tx 0), CallInsert vmC] failing_tx)) = [vmC]"
  by code_simp


text \<open>
  C6. The first backend call of every Update that gets past its locks is the
  \<^verbatim>\<open>Get\<close> of the current row. When that \<^verbatim>\<open>Get\<close> fails, Update returns its
  error, wrapped, and leaves the client as it was but for what the \<^verbatim>\<open>Get\<close> itself
  did to the backend and for the log, which shows no call after the \<^verbatim>\<open>Get\<close> other
  than the deferred unlocks: no update, no label call, no journal call.
\<close>

theorem update_aborts_on_get_error:
  assumes "\<not> mu c" and "\<not> (tx c = None \<and> dbMutex c)"
    and "Update E c m = (c', r)"
  shows "(\<exists>rest. effects c c' =
            Lock # (if tx c = None then [DbLock] else []) @
            TableGet (table_DB c) (journal_copy m) # rest) \<and>
         (\<forall>d e. table_Get E (db c) (table_DB c) (journal_copy m) = (d, Inl e) \<longrightarrow>
            r = Err (wrap E e) \<and>
            c' = c\<lparr>db := d,
                   log := log c @ Lock # (if tx c = None then [DbLock] else []) @
                     TableGet (table_DB c) (journal_copy m) #
                     (if tx c = None then [DbUnlock] else []) @ [Unlock]\<rparr>)"
proof -
  obtain c2 where b: "Update_body E (table_DB c) (enter c) m = (c2, r)"
    and c': "c' = deferred (tx c = None) c2"
    using assms Update_enter [of c E m] by (auto split: prod.splits)
  have first: "\<exists>rest. log c2 = log (enter c) @ TableGet (table_DB c) (journal_copy m) # rest"
    using b unfolding Update_body_def
    by (auto simp: Let_def split: prod.splits sum.splits option.splits if_splits
        dest!: replaceLabels_frame)
  have fail: "r = Err (wrap E e) \<and>
      c2 = (enter c)\<lparr>db := d, log := log (enter c) @ [TableGet (table_DB c) (journal_copy m)]\<rparr>"
    if "table_Get E (db c) (table_DB c) (journal_copy m) = (d, Inl e)" for d e
    using b that unfolding Update_body_def by (auto simp: Let_def emit_def)
  show ?thesis
  proof (intro conjI allI impI)
    from first obtain rest where
      "log c2 = log (enter c) @ TableGet (table_DB c) (journal_copy m) # rest" by blast
    then show "\<exists>rest. effects c c' =
            Lock # (if tx c = None then [DbLock] else []) @
            TableGet (table_DB c) (journal_copy m) # rest"
      unfolding c' by (auto simp: effects_def)
  next
    fix d e assume g: "table_Get E (db c) (table_DB c) (journal_copy m) = (d, Inl e)"
    show "r = Err (wrap E e)" using fail [OF g] by simp
    show "c' = c\<lparr>db := d,
                   log := log c @ Lock # (if tx c = None then [DbLock] else []) @
                     TableGet (table_DB c) (journal_copy m) #
                     (if tx c = None then [DbUnlock] else []) @ [Unlock]\<rparr>"
      using fail [OF g] assms(1,2) unfolding c'
      by (auto simp: deferred_def enter_def emit_def Let_def)
  qed
qed

theorem update_aborts_on_get_error_witness:
  "\<not> mu (opened None) \<and> \<not> (tx (opened None) = None \<and> dbMutex (opened None)) \<and>
   table_Get mem (db (opened None)) (table_DB (opened None)) (journal_copy vmA) =
     (db (opened None), Inl NotFound) \<and>
   snd (Update mem (opened None) vmA) = Err (wrap mem NotFound) \<and>
   db (fst (Update mem (opened None) vmA)) = db (opened None) \<and>
   journal (fst (Update mem (opened None) vmA)) = journal (opened None) \<and>
   effects (opened None) (fst (Update mem (opened None) vmA)) =
     [Lock, DbLock, TableGet DB vmA, DbUnlock, Unlock]"
proof -
  have h: "\<not> mu (opened None)" "\<not> (tx (opened None) = None \<and> dbMutex (opened None))"
    by (simp_all add: opened_def)
  have g: "table_Get mem (db (opened None)) (table_DB (opened None)) (journal_copy vmA) =
     (db (opened None), Inl NotFound)"
    by code_simp
  have t: "tx (opened None) = None" "table_DB (opened None) = DB" "journal_copy vmA = vmA"
    by (simp_all add: opened_def table_DB_def journal_copy_def)
  from update_aborts_on_get_error [OF h, of mem vmA "fst (Update mem (opened None) vmA)"
      "snd (Update mem (opened None) vmA)"] g
  have r: "snd (Update mem (opened None) vmA) = Err (wrap mem NotFound)"
    and c: "fst (Update mem (opened None) vmA) = (opened None)\<lparr>db := db (opened None),
       log := log (opened None) @ Lock # (if tx (opened None) = None then [DbLock] else []) @
                     TableGet (table_DB (opened None)) (journal_copy vmA) #
                     (if tx (opened None) = None then [DbUnlock] else []) @ [Unlock]\<rparr>"
    by simp_all
  show ?thesis using h g r unfolding c by (simp add: t effects_def)
qed

text \<open>
  C9. When the primary mapper call of Insert, Update or Delete has succeeded and the
  label helper that follows returns an error, the call returns that error, wrapped
  once more, with the journal as it was: nothing staged, no \<^verbatim>\<open>Journal.Commit\<close>.
\<close>

theorem label_failure_stages_nothing:
  assumes "\<not> mu c" and "\<not> (tx c = None \<and> dbMutex c)"
  shows
   "(table_Insert E (db c) (table_DB c) m = (d, None) \<and>
     insertLabels E (table_DB c) m
       (emit (TableInsert (table_DB c) m) ((enter c)\<lparr>db := d\<rparr>)) = (c1, Some e) \<longrightarrow>
       snd (Insert E c m) = Err (wrap E e) \<and>
       journal (fst (Insert E c m)) = journal c \<and>
       quiet (effects c (fst (Insert E c m)))) \<and>
    (table_Get E (db c) (table_DB c) (journal_copy m) = (d0, Inr current) \<and>
     table_Update E d0 (table_DB c) m = (d, None) \<and>
     replaceLabels E (table_DB c) m
       (emit (TableUpdate (table_DB c) m)
         ((emit (TableGet (table_DB c) (journal_copy m)) ((enter c)\<lparr>db := d0\<rparr>))\<lparr>db := d\<rparr>))
       = (c2, Some e) \<longrightarrow>
       snd (Update E c m) = Err (wrap E e) \<and>
       journal (fst (Update E c m)) = journal c \<and>
       quiet (effects c (fst (Update E c m)))) \<and>
    (table_Delete E (db c) (table_DB c) m = (d, None) \<and>
     deleteLabels E (table_DB c) m
       (emit (TableDelete (table_DB c) m) ((enter c)\<lparr>db := d\<rparr>)) = (c3, Some e) \<longrightarrow>
       snd (Delete E c m) = Err (wrap E e) \<and>
       journal (fst (Delete E c m)) = journal c \<and>
       quiet (effects c (fst (Delete E c m))))"
proof (intro conjI impI; elim conjE)
  assume p: "table_Insert E (db c) (table_DB c) m = (d, None)"
    and l: "insertLabels E (table_DB c) m
       (emit (TableInsert (table_DB c) m) ((enter c)\<lparr>db := d\<rparr>)) = (c1, Some e)"
  have b: "Insert_body E (table_DB c) (enter c) m = (c1, Err (wrap E e))"
    unfolding Insert_body_def using p l by (simp add: Let_def)
  have i: "Insert E c m = (deferred (tx c = None) c1, Err (wrap E e))"
    using Insert_enter [OF assms, of E m] b by simp
  from Insert_body_not_Ok [OF b] obtain xs where
    "quiet xs" "log c1 = log (enter c) @ xs" "journal c1 = journal c" by auto
  then show "snd (Insert E c m) = Err (wrap E e)"
    and "journal (fst (Insert E c m)) = journal c"
    and "quiet (effects c (fst (Insert E c m)))"
    unfolding i by (auto simp: effects_def)
next
  assume g: "table_Get E (db c) (table_DB c) (journal_copy m) = (d0, Inr current)"
    and p: "table_Update E d0 (table_DB c) m = (d, None)"
    and l: "replaceLabels E (table_DB c) m
       (emit (TableUpdate (table_DB c) m)
         ((emit (TableGet (table_DB c) (journal_copy m)) ((enter c)\<lparr>db := d0\<rparr>))\<lparr>db := d\<rparr>))
       = (c2, Some e)"
  have b: "Update_body E (table_DB c) (enter c) m = (c2, Err (wrap E e))"
    unfolding Update_body_def using g p l by (simp add: Let_def)
  have i: "Update E c m = (deferred (tx c = None) c2, Err (wrap E e))"
    using Update_enter [OF assms, of E m] b by simp
  from Update_body_not_Ok [OF b] obtain xs where
    "quiet xs" "log c2 = log (enter c) @ xs" "journal c2 = journal c" by auto
  then show "snd (Update E c m) = Err (wrap E e)"
    and "journal (fst (Update E c m)) = journal c"
    and "quiet (effects c (fst (Update E c m)))"
    unfolding i by (auto simp: effects_def)
next
  assume p: "table_Delete E (db c) (table_DB c) m = (d, None)"
    and l: "deleteLabels E (table_DB c) m
       (emit (TableDelete (table_DB c) m) ((enter c)\<lparr>db := d\<rparr>)) = (c3, Some e)"
  have b: "Delete_body E (table_DB c) (enter c) m = (c3, Err (wrap E e))"
    unfolding Delete_body_def using p l by (simp add: Let_def)
  have i: "Delete E c m = (deferred (tx c = None) c3, Err (wrap E e))"
    using Delete_enter [OF assms, of E m] b by simp
  from Delete_body_not_Ok [OF b] obtain xs where
    "quiet xs" "log c3 = log (enter c) @ xs" "journal c3 = journal c" by auto
  then show "snd (Delete E c m) = Err (wrap E e)"
    and "journal (fst (Delete E c m)) = journal c"
    and "quiet (effects c (fst (Delete E c m)))"
    unfolding i by (auto simp: effects_def)
qed


theorem label_failure_stages_nothing_witness:
  "\<not> mu (opened (Some 1)) \<and> \<not> (tx (opened (Some 1)) = None \<and> dbMutex (opened (Some 1))) \<and>
   snd (table_Insert mem (db (opened (Some 1))) (table_DB (opened (Some 1))) vmA) = None \<and>
   snd (insertLabels mem (table_DB (opened (Some 1))) vmA
     (emit (TableInsert (table_DB (opened (Some 1))) vmA)
       ((enter (opened (Some 1)))
          \<lparr>db := fst (table_Insert mem (db (opened (Some 1)))
                   (table_DB (opened (Some 1))) vmA)\<rparr>))) = Some (Wrapped MappingError) \<and>
   snd (Insert mem (opened (Some 1)) vmA) = Err (wrap mem (Wrapped MappingError)) \<and>
   journal (fst (Insert mem (opened (Some 1)) vmA)) = journal (opened (Some 1)) \<and>
   quiet (effects (opened (Some 1)) (fst (Insert mem (opened (Some 1)) vmA))) \<and>
   snd (Update mem (fused 2 stored) vmB) = Err (wrap mem (Wrapped (Wrapped MappingError))) \<and>
   journal (fst (Update mem (fused 2 stored) vmB)) = journal (fused 2 stored) \<and>
   snd (Delete mem (fused 1 stored) vmA) = Err (wrap mem (Wrapped MappingError)) \<and>
   journal (fst (Delete mem (fused 1 stored) vmA)) = journal (fused 1 stored)"
proof -
  let ?c = "opened (Some 1)"
  let ?u = "fused 2 stored"
  let ?d = "fused 1 stored"
  have h: "\<not> mu ?c" "\<not> (tx ?c = None \<and> dbMutex ?c)"
    by (simp_all add: opened_def)
  have hu: "\<not> mu ?u" "\<not> (tx ?u = None \<and> dbMutex ?u)" by code_simp+
  have hd: "\<not> mu ?d" "\<not> (tx ?d = None \<and> dbMutex ?d)" by code_simp+
  have p: "table_Insert mem (db ?c) (table_DB ?c) vmA =
      (fst (table_Insert mem (db ?c) (table_DB ?c) vmA), None)"
    by (rule pair_fst) code_simp
  have l: "insertLabels mem (table_DB ?c) vmA
      (emit (TableInsert (table_DB ?c) vmA)
        ((enter ?c)\<lparr>db := fst (table_Insert mem (db ?c) (table_DB ?c) vmA)\<rparr>)) =
      (fst (insertLabels mem (table_DB ?c) vmA
        (emit (TableInsert (table_DB ?c) vmA)
          ((enter ?c)\<lparr>db := fst (table_Insert mem (db ?c) (table_DB ?c) vmA)\<rparr>))),
       Some (Wrapped MappingError))"
    by (rule pair_fst) code_simp
  have i: "snd (Insert mem ?c vmA) = Err (wrap mem (Wrapped MappingError)) \<and>
      journal (fst (Insert mem ?c vmA)) = journal ?c \<and>
      quiet (effects ?c (fst (Insert mem ?c vmA)))"
    using label_failure_stages_nothing [OF h, THEN conjunct1] p l by blast
  have ug: "table_Get mem (db ?u) (table_DB ?u) (journal_copy vmB) =
      (fst (table_Get mem (db ?u) (table_DB ?u) (journal_copy vmB)), Inr vmA)"
    by (rule pair_fst) code_simp
  have up: "table_Update mem (fst (table_Get mem (db ?u) (table_DB ?u) (journal_copy vmB)))
        (table_DB ?u) vmB =
      (fst (table_Update mem (fst (table_Get mem (db ?u) (table_DB ?u) (journal_copy vmB)))
        (table_DB ?u) vmB), None)"
    by (rule pair_fst) code_simp
  have ul: "replaceLabels mem (table_DB ?u) vmB
       (emit (TableUpdate (table_DB ?u) vmB)
         ((emit (TableGet (table_DB ?u) (journal_copy vmB))
            ((enter ?u)\<lparr>db := fst (table_Get mem (db ?u) (table_DB ?u) (journal_copy vmB))\<rparr>))
          \<lparr>db := fst (table_Update mem
                   (fst (table_Get mem (db ?u) (table_DB ?u) (journal_copy vmB)))
                   (table_DB ?u) vmB)\<rparr>)) =
      (fst (replaceLabels mem (table_DB ?u) vmB
       (emit (TableUpdate (table_DB ?u) vmB)
         ((emit (TableGet (table_DB ?u) (journal_copy vmB))
            ((enter ?u)\<lparr>db := fst (table_Get mem (db ?u) (table_DB ?u) (journal_copy vmB))\<rparr>))
          \<lparr>db := fst (table_Update mem
                   (fst (table_Get mem (db ?u) (table_DB ?u) (journal_copy vmB)))
                   (table_DB ?u) vmB)\<rparr>))), Some (Wrapped (Wrapped MappingError)))"
    by (rule pair_fst) code_simp
  have u: "snd (Update mem ?u vmB) = Err (wrap mem (Wrapped (Wrapped MappingError))) \<and>
      journal (fst (Update mem ?u vmB)) = journal ?u \<and>
      quiet (effects ?u (fst (Update mem ?u vmB)))"
    using label_failure_stages_nothing [OF hu, THEN conjunct2, THEN conjunct1] ug up ul
    by blast
  have dp: "table_Delete mem (db ?d) (table_DB ?d) vmA =
      (fst (table_Delete mem (db ?d) (table_DB ?d) vmA), None)"
    by (rule pair_fst) code_simp
  have dl: "deleteLabels mem (table_DB ?d) vmA
      (emit (TableDelete (table_DB ?d) vmA)
        ((enter ?d)\<lparr>db := fst (table_Delete mem (db ?d) (table_DB ?d) vmA)\<rparr>)) =
      (fst (deleteLabels mem (table_DB ?d) vmA
        (emit (TableDelete (table_DB ?d) vmA)
          ((enter ?d)\<lparr>db := fst (table_Delete mem (db ?d) (table_DB ?d) vmA)\<rparr>))),
       Some (Wrapped MappingError))"
    by (rule pair_fst) code_simp
  have d: "snd (Delete mem ?d vmA) = Err (wrap mem (Wrapped MappingError)) \<and>
      journal (fst (Delete mem ?d vmA)) = journal ?d \<and>
      quiet (effects ?d (fst (Delete mem ?d vmA)))"
    using label_failure_stages_nothing [OF hd, THEN conjunct2, THEN conjunct2] dp dl
    by blast
  have p': "snd (table_Insert mem (db ?c) (table_DB ?c) vmA) = None"
    using p by (metis snd_conv)
  have l': "snd (insertLabels mem (table_DB ?c) vmA
      (emit (TableInsert (table_DB ?c) vmA)
        ((enter ?c)\<lparr>db := fst (table_Insert mem (db ?c) (table_DB ?c) vmA)\<rparr>))) =
      Some (Wrapped MappingError)"
    using l by (metis snd_conv)
  show ?thesis using h p' l' i u d by blast
qed

lemma Begin_cases:
  "Begin E c =
     (if mu c then (c, Blocked)
      else if dbMutex c then (c\<lparr>mu := True, log := log c @ [Lock]\<rparr>, Blocked)
      else case sql_Begin E (db c) (nextRef c) of
        (d, Some e) \<Rightarrow>
          (c\<lparr>dbMutex := True, db := d,
             log := log c @ [Lock, DbLock, SqlBegin (nextRef c), Unlock]\<rparr>, Err e)
      | (d, None) \<Rightarrow>
          (c\<lparr>dbMutex := True, db := d, tx := Some (nextRef c), nextRef := Suc (nextRef c),
             log := log c @ [Lock, DbLock, SqlBegin (nextRef c), Unlock]\<rparr>,
           Ok (Tx (nextRef c))))"
  by (auto simp: Begin_def emit_def Let_def split: prod.splits option.splits)


section \<open>Sequences of calls: what they keep\<close>

lemma leasefree_simps [simp]:
  "leasefree []" "leasefree (e # xs) = (\<not> lease_effect e \<and> leasefree xs)"
  "leasefree (xs @ ys) = (leasefree xs \<and> leasefree ys)"
  by (simp_all add: leasefree_def)

lemma label_effect_leasefree: "list_all label_effect xs \<Longrightarrow> leasefree xs"
  unfolding leasefree_def by (induction xs) (auto elim: label_effect.elims)

lemma leasefree_set: "leasefree xs \<Longrightarrow> DbLock \<notin> set xs \<and> DbUnlock \<notin> set xs"
  by (induction xs) auto

lemma Insert_body_leasefree:
  "Insert_body E h c m = (c', r) \<Longrightarrow> \<exists>xs. log c' = log c @ xs \<and> leasefree xs"
  unfolding Insert_body_def
  by (auto simp: Let_def split: prod.splits option.splits if_splits
      dest!: insertLabels_frame dest: label_effect_leasefree)

lemma Update_body_leasefree:
  "Update_body E h c m = (c', r) \<Longrightarrow> \<exists>xs. log c' = log c @ xs \<and> leasefree xs"
  unfolding Update_body_def
  by (auto simp: Let_def split: prod.splits option.splits sum.splits if_splits
      dest!: replaceLabels_frame dest: label_effect_leasefree)

lemma Delete_body_leasefree:
  "Delete_body E h c m = (c', r) \<Longrightarrow> \<exists>xs. log c' = log c @ xs \<and> leasefree xs"
  unfolding Delete_body_def
  by (auto simp: Let_def split: prod.splits option.splits if_splits
      dest!: deleteLabels_frame dest: label_effect_leasefree)

text \<open>What any mutation leaves of the transaction bookkeeping.\<close>

lemma mutation_frame_generic:
  assumes call: "\<not> mu c \<Longrightarrow> \<not> (tx c = None \<and> dbMutex c) \<Longrightarrow>
        f = (case body (enter c) of (c2, r) \<Rightarrow> (deferred (tx c = None) c2, r))"
    and blocked: "mu c \<or> tx c = None \<and> dbMutex c \<Longrightarrow>
        fst f = c \<or> fst f = emit Lock (c\<lparr>mu := True\<rparr>)"
    and frame: "\<And>c2 r. body (enter c) = (c2, r) \<Longrightarrow>
        mu c2 = mu (enter c) \<and> dbMutex c2 = dbMutex (enter c) \<and> tx c2 = tx (enter c) \<and>
        nextRef c2 = nextRef (enter c)"
    and lf: "\<And>c2 r. body (enter c) = (c2, r) \<Longrightarrow> \<exists>xs. log c2 = log (enter c) @ xs \<and> leasefree xs"
  shows "tx (fst f) = tx c \<and> nextRef (fst f) = nextRef c \<and> dbMutex (fst f) = dbMutex c \<and>
         (tx c \<noteq> None \<longrightarrow> (\<exists>xs. log (fst f) = log c @ xs \<and> leasefree xs))"
proof (cases "mu c \<or> tx c = None \<and> dbMutex c")
  case True
  from blocked [OF True] show ?thesis by (auto simp: emit_def)
next
  case False
  then have free: "\<not> mu c" "\<not> (tx c = None \<and> dbMutex c)" by auto
  obtain c2 r where b: "body (enter c) = (c2, r)" by fastforce
  have f: "fst f = deferred (tx c = None) c2" using call [OF free] b by simp
  from lf [OF b] obtain xs where "log c2 = log (enter c) @ xs" "leasefree xs" by blast
  then show ?thesis using frame [OF b] free unfolding f by auto
qed

lemma Insert_frame:
  "tx (fst (Insert E c m)) = tx c \<and> nextRef (fst (Insert E c m)) = nextRef c \<and>
   dbMutex (fst (Insert E c m)) = dbMutex c \<and>
   (tx c \<noteq> None \<longrightarrow> (\<exists>xs. log (fst (Insert E c m)) = log c @ xs \<and> leasefree xs))"
proof (rule mutation_frame_generic [where body = "\<lambda>c1. Insert_body E (table_DB c) c1 m"])
  show "\<not> mu c \<Longrightarrow> \<not> (tx c = None \<and> dbMutex c) \<Longrightarrow>
      Insert E c m = (case Insert_body E (table_DB c) (enter c) m of
        (c2, r) \<Rightarrow> (deferred (tx c = None) c2, r))"
    by (rule Insert_enter)
  show "mu c \<or> tx c = None \<and> dbMutex c \<Longrightarrow>
      fst (Insert E c m) = c \<or> fst (Insert E c m) = emit Lock (c\<lparr>mu := True\<rparr>)"
    by (auto simp: Insert_def Let_def)
  show "\<And>c2 r. Insert_body E (table_DB c) (enter c) m = (c2, r) \<Longrightarrow>
      mu c2 = mu (enter c) \<and> dbMutex c2 = dbMutex (enter c) \<and> tx c2 = tx (enter c) \<and>
      nextRef c2 = nextRef (enter c)"
    by (rule Insert_body_frame)
  show "\<And>c2 r. Insert_body E (table_DB c) (enter c) m = (c2, r) \<Longrightarrow>
      \<exists>xs. log c2 = log (enter c) @ xs \<and> leasefree xs"
    by (rule Insert_body_leasefree)
qed

lemma Update_frame:
  "tx (fst (Update E c m)) = tx c \<and> nextRef (fst (Update E c m)) = nextRef c \<and>
   dbMutex (fst (Update E c m)) = dbMutex c \<and>
   (tx c \<noteq> None \<longrightarrow> (\<exists>xs. log (fst (Update E c m)) = log c @ xs \<and> leasefree xs))"
proof (rule mutation_frame_generic [where body = "\<lambda>c1. Update_body E (table_DB c) c1 m"])
  show "\<not> mu c \<Longrightarrow> \<not> (tx c = None \<and> dbMutex c) \<Longrightarrow>
      Update E c m = (case Update_body E (table_DB c) (enter c) m of
        (c2, r) \<Rightarrow> (deferred (tx c = None) c2, r))"
    by (rule Update_enter)
  show "mu c \<or> tx c = None \<and> dbMutex c \<Longrightarrow>
      fst (Update E c m) = c \<or> fst (Update E c m) = emit Lock (c\<lparr>mu := True\<rparr>)"
    by (auto simp: Update_def Let_def)
  show "\<And>c2 r. Update_body E (table_DB c) (enter c) m = (c2, r) \<Longrightarrow>
      mu c2 = mu (enter c) \<and> dbMutex c2 = dbMutex (enter c) \<and> tx c2 = tx (enter c) \<and>
      nextRef c2 = nextRef (enter c)"
    by (rule Update_body_frame)
  show "\<And>c2 r. Update_body E (table_DB c) (enter c) m = (c2, r) \<Longrightarrow>
      \<exists>xs. log c2 = log (enter c) @ xs \<and> leasefree xs"
    by (rule Update_body_leasefree)
qed

lemma Delete_frame:
  "tx (fst (Delete E c m)) = tx c \<and> nextRef (fst (Delete E c m)) = nextRef c \<and>
   dbMutex (fst (Delete E c m)) = dbMutex c \<and>
   (tx c \<noteq> None \<longrightarrow> (\<exists>xs. log (fst (Delete E c m)) = log c @ xs \<and> leasefree xs))"
proof (rule mutation_frame_generic [where body = "\<lambda>c1. Delete_body E (table_DB c) c1 m"])
  show "\<not> mu c \<Longrightarrow> \<not> (tx c = None \<and> dbMutex c) \<Longrightarrow>
      Delete E c m = (case Delete_body E (table_DB c) (enter c) m of
        (c2, r) \<Rightarrow> (deferred (tx c = None) c2, r))"
    by (rule Delete_enter)
  show "mu c \<or> tx c = None \<and> dbMutex c \<Longrightarrow>
      fst (Delete E c m) = c \<or> fst (Delete E c m) = emit Lock (c\<lparr>mu := True\<rparr>)"
    by (auto simp: Delete_def Let_def)
  show "\<And>c2 r. Delete_body E (table_DB c) (enter c) m = (c2, r) \<Longrightarrow>
      mu c2 = mu (enter c) \<and> dbMutex c2 = dbMutex (enter c) \<and> tx c2 = tx (enter c) \<and>
      nextRef c2 = nextRef (enter c)"
    by (rule Delete_body_frame)
  show "\<And>c2 r. Delete_body E (table_DB c) (enter c) m = (c2, r) \<Longrightarrow>
      \<exists>xs. log c2 = log (enter c) @ xs \<and> leasefree xs"
    by (rule Delete_body_leasefree)
qed

lemma Watch_range_frame:
  "mu (Watch_range w list c) = mu c \<and> dbMutex (Watch_range w list c) = dbMutex c \<and>
   tx (Watch_range w list c) = tx c \<and> nextRef (Watch_range w list c) = nextRef c \<and>
   db (Watch_range w list c) = db c \<and>
   log (Watch_range w list c) =
     log c @ map (\<lambda>m. WatchNotify w \<lparr>Model = m, Action = Created, PriorModel = None\<rparr>) list"
  by (induction list arbitrary: c) (simp_all add: Let_def)

lemma Watch_frame:
  "tx (fst (Watch E c m)) = tx c \<and> nextRef (fst (Watch E c m)) = nextRef c \<and>
   dbMutex (fst (Watch E c m)) = dbMutex c \<and>
   (\<exists>xs. log (fst (Watch E c m)) = log c @ xs \<and> leasefree xs)"
  unfolding Watch_def journal_Watch_def
  by (auto simp: Let_def Watch_range_frame leasefree_def list_all_iff
      split: prod.splits sum.splits)

lemma Get_frame:
  "tx (fst (Get E c m)) = tx c \<and> nextRef (fst (Get E c m)) = nextRef c \<and>
   dbMutex (fst (Get E c m)) = dbMutex c \<and> mu (fst (Get E c m)) = mu c \<and>
   log (fst (Get E c m)) = log c @ [TableGet DB m]"
  unfolding Get_def by (auto simp: Let_def split: prod.splits)

lemma List_frame:
  "tx (fst (List_models E c k)) = tx c \<and> nextRef (fst (List_models E c k)) = nextRef c \<and>
   dbMutex (fst (List_models E c k)) = dbMutex c \<and> mu (fst (List_models E c k)) = mu c \<and>
   log (fst (List_models E c k)) = log c @ [TableList DB k]"
  unfolding List_models_def by (auto simp: Let_def split: prod.splits)

lemma Tx_ref: "t \<noteq> Tx r \<Longrightarrow> ref t \<noteq> r"
  by (cases t) simp

lemma GetForUpdate_blocked:
  "mu c \<or> dbMutex c \<Longrightarrow>
   snd (GetForUpdate E c m) = Blocked \<and>
   (fst (GetForUpdate E c m) = c \<or> fst (GetForUpdate E c m) = c\<lparr>mu := True, log := log c @ [Lock]\<rparr>)"
  by (auto simp: GetForUpdate_def Begin_cases)

text \<open>A step under an open transaction, other than the commit or the end of that
  transaction, keeps it open and the mutex held, and does not touch the mutex.\<close>

lemma step_held:
  assumes "dbMutex c" and "tx c = Some r"
    and "call \<noteq> CallCommit (Tx r)" and "call \<noteq> CallEnd (Tx r)"
  shows "dbMutex (step E call c) \<and> tx (step E call c) = Some r \<and>
         (\<exists>xs. log (step E call c) = log c @ xs \<and> leasefree xs)"
proof (cases call)
  case (CallGet m)
  then show ?thesis using assms Get_frame [of E c m] by simp
next
  case (CallList k)
  then show ?thesis using assms List_frame [of E c k] by simp
next
  case (CallGetForUpdate m)
  then show ?thesis using assms GetForUpdate_blocked [of c E m] by auto
next
  case CallBegin
  then show ?thesis using assms by (auto simp: Begin_cases)
next
  case (CallInsert m)
  then show ?thesis using assms Insert_frame [of E c m] by auto
next
  case (CallUpdate m)
  then show ?thesis using assms Update_frame [of E c m] by auto
next
  case (CallDelete m)
  then show ?thesis using assms Delete_frame [of E c m] by auto
next
  case (CallWatch m)
  then show ?thesis using assms Watch_frame [of E c m] by auto
next
  case (CallCommit t)
  then have "ref t \<noteq> r" using assms(3) by (auto dest: Tx_ref)
  then show ?thesis using assms CallCommit by (auto simp: commit_cases)
next
  case (CallEnd t)
  then have "ref t \<noteq> r" using assms(4) by (auto dest: Tx_ref)
  then show ?thesis using assms CallEnd by (auto simp: end_tx_cases)
qed

lemma run_held:
  assumes "dbMutex c" and "tx c = Some r"
    and "CallCommit (Tx r) \<notin> set calls" and "CallEnd (Tx r) \<notin> set calls"
  shows "dbMutex (run E calls c) \<and> tx (run E calls c) = Some r \<and>
         (\<exists>xs. log (run E calls c) = log c @ xs \<and> leasefree xs)"
  using assms
proof (induction calls arbitrary: c)
  case Nil
  then show ?case by (simp add: run_def)
next
  case (Cons call calls)
  from step_held [of c r call E] Cons.prems
  obtain xs where s: "dbMutex (step E call c)" "tx (step E call c) = Some r"
    "log (step E call c) = log c @ xs" "leasefree xs" by auto
  from Cons.IH [OF s(1,2)] Cons.prems
  obtain ys where "dbMutex (run E calls (step E call c))"
    "tx (run E calls (step E call c)) = Some r"
    "log (run E calls (step E call c)) = log (step E call c) @ ys" "leasefree ys" by auto
  then show ?case using s by (auto simp: run_def)
qed

text \<open>The transaction bookkeeping after any step: the current transaction is the old
  one, none, or a new one; identities are never reused; an open transaction holds the
  mutex.\<close>

lemma step_shape:
  assumes "tx c \<noteq> None \<longrightarrow> dbMutex c"
  shows "(tx (step E call c) = tx c \<or> tx (step E call c) = None \<or>
          tx (step E call c) = Some (nextRef c)) \<and>
         nextRef c \<le> nextRef (step E call c) \<and>
         (tx (step E call c) \<noteq> None \<longrightarrow> dbMutex (step E call c))"
proof (cases call)
  case (CallGet m)
  then show ?thesis using assms Get_frame [of E c m] by simp
next
  case (CallList k)
  then show ?thesis using assms List_frame [of E c k] by simp
next
  case (CallGetForUpdate m)
  show ?thesis
  proof (cases "mu c \<or> dbMutex c")
    case True
    then show ?thesis using assms CallGetForUpdate GetForUpdate_blocked [of c E m] by auto
  next
    case False
    then show ?thesis using assms CallGetForUpdate
      by (auto simp: GetForUpdate_def Begin_cases end_tx_cases Let_def
          split: prod.splits option.splits sum.splits)
  qed
next
  case CallBegin
  then show ?thesis using assms
    by (auto simp: Begin_cases split: prod.splits option.splits)
next
  case (CallInsert m)
  then show ?thesis using assms Insert_frame [of E c m] by auto
next
  case (CallUpdate m)
  then show ?thesis using assms Update_frame [of E c m] by auto
next
  case (CallDelete m)
  then show ?thesis using assms Delete_frame [of E c m] by auto
next
  case (CallWatch m)
  then show ?thesis using assms Watch_frame [of E c m] by auto
next
  case (CallCommit t)
  then show ?thesis using assms
    by (auto simp: commit_cases split: prod.splits option.splits)
next
  case (CallEnd t)
  then show ?thesis using assms
    by (auto simp: end_tx_cases split: prod.splits option.splits)
qed

lemma run_ended:
  assumes "tx c \<noteq> Some r" and "r < nextRef c" and "tx c \<noteq> None \<longrightarrow> dbMutex c"
  shows "tx (run E calls c) \<noteq> Some r \<and> r < nextRef (run E calls c) \<and>
         (tx (run E calls c) \<noteq> None \<longrightarrow> dbMutex (run E calls c))"
  using assms
proof (induction calls arbitrary: c)
  case Nil
  then show ?case by (simp add: run_def)
next
  case (Cons call calls)
  have "tx (step E call c) \<noteq> Some r \<and> r < nextRef (step E call c) \<and>
      (tx (step E call c) \<noteq> None \<longrightarrow> dbMutex (step E call c))"
    using step_shape [OF Cons.prems(3), of E call] Cons.prems(1,2) by auto
  then show ?case using Cons.IH [of "step E call c"] by (simp add: run_def)
qed

text \<open>
  C5. \<^verbatim>\<open>Commit\<close> and \<^verbatim>\<open>End\<close> with a \<^verbatim>\<open>Tx\<close> that is not the current transaction
  return the wrapped \<^verbatim>\<open>TxInvalidError\<close> and change nothing. A \<^verbatim>\<open>Tx\<close> that has been
  committed or ended is never current again, whatever calls follow, a new
  \<^verbatim>\<open>Begin\<close> included: every later \<^verbatim>\<open>Commit\<close> or \<^verbatim>\<open>End\<close> of it returns that
  error (or waits for ever, when an earlier call is stuck holding the state lock).
  The hypotheses hold for every \<^verbatim>\<open>Tx\<close> that \<^verbatim>\<open>Begin\<close> returned, in every client
  reached from an open store (\<open>run_ended\<close>).
\<close>

theorem ended_tx_is_invalid:
  assumes "ref t < nextRef c" and "tx c \<noteq> None \<longrightarrow> dbMutex c" and "\<not> mu c"
    and "first = CallCommit t \<or> first = CallEnd t"
    and "c2 = run E (first # calls) c"
  shows "tx c2 \<noteq> Some (ref t) \<and>
     snd (commit E c2 t) = (if mu c2 then Blocked else Err (wrap E TxInvalidError)) \<and>
     snd (end_tx E c2 t) = (if mu c2 then Blocked else Err (wrap E TxInvalidError)) \<and>
     journal (fst (commit E c2 t)) = journal c2 \<and> db (fst (commit E c2 t)) = db c2 \<and>
     journal (fst (end_tx E c2 t)) = journal c2 \<and> db (fst (end_tx E c2 t)) = db c2 \<and>
     (\<forall>c' t'. \<not> mu c' \<and> tx c' \<noteq> Some (ref t') \<longrightarrow>
        commit E c' t' = (c'\<lparr>log := log c' @ [Lock, Unlock]\<rparr>, Err (wrap E TxInvalidError)) \<and>
        end_tx E c' t' = (c'\<lparr>log := log c' @ [Lock, Unlock]\<rparr>, Err (wrap E TxInvalidError)))"
proof -
  let ?c1 = "step E first c"
  have 1: "tx ?c1 \<noteq> Some (ref t) \<and> ref t < nextRef ?c1 \<and> (tx ?c1 \<noteq> None \<longrightarrow> dbMutex ?c1)"
  proof (cases "tx c = Some (ref t)")
    case True
    then have "dbMutex c" using assms(2) by simp
    then show ?thesis using True assms(1,3,4)
      by (auto simp: commit_cases end_tx_cases split: prod.splits option.splits)
  next
    case False
    then show ?thesis using assms(1-4)
      by (auto simp: commit_cases end_tx_cases)
  qed
  have 2: "tx c2 \<noteq> Some (ref t)"
    using run_ended [of ?c1 "ref t" E calls] 1 assms(5) by (simp add: run_def)
  show ?thesis using 2 by (simp add: commit_cases end_tx_cases)
qed

theorem ended_tx_is_invalid_witness:
  "ref (Tx 0) < nextRef in_tx \<and> dbMutex in_tx \<and> \<not> mu in_tx \<and>
   tx in_tx = Some (ref (Tx 0)) \<and>
   snd (commit mem in_tx (Tx 0)) = Ok () \<and>
   \<not> mu (run mem [CallCommit (Tx 0), CallBegin, CallInsert vmC] in_tx) \<and>
   tx (run mem [CallCommit (Tx 0), CallBegin, CallInsert vmC] in_tx) = Some 1 \<and>
   snd (commit mem (run mem [CallCommit (Tx 0), CallBegin, CallInsert vmC] in_tx) (Tx 0)) =
     Err (wrap mem TxInvalidError) \<and>
   snd (end_tx mem (run mem [CallCommit (Tx 0), CallBegin, CallInsert vmC] in_tx) (Tx 0)) =
     Err (wrap mem TxInvalidError) \<and>
   snd (commit mem (run mem [CallEnd (Tx 0)] in_tx) (Tx 0)) = Err (wrap mem TxInvalidError)"
proof -
  have h: "ref (Tx 0) < nextRef in_tx" "tx in_tx \<noteq> None \<longrightarrow> dbMutex in_tx" "\<not> mu in_tx"
    by code_simp+
  have a: "tx in_tx = Some (ref (Tx 0))" "snd (commit mem in_tx (Tx 0)) = Ok ()"
    "\<not> mu (run mem [CallCommit (Tx 0), CallBegin, CallInsert vmC] in_tx)"
    "tx (run mem [CallCommit (Tx 0), CallBegin, CallInsert vmC] in_tx) = Some 1"
    "\<not> mu (run mem [CallEnd (Tx 0)] in_tx)"
    by code_simp+
  have 1: "snd (commit mem (run mem [CallCommit (Tx 0), CallBegin, CallInsert vmC] in_tx) (Tx 0)) =
     Err (wrap mem TxInvalidError) \<and>
    snd (end_tx mem (run mem [CallCommit (Tx 0), CallBegin, CallInsert vmC] in_tx) (Tx 0)) =
     Err (wrap mem TxInvalidError)"
    using ended_tx_is_invalid [OF h, of "CallCommit (Tx 0)"
        "run mem [CallCommit (Tx 0), CallBegin, CallInsert vmC] in_tx" mem
        "[CallBegin, CallInsert vmC]"] a(3)
    by simp
  have 2: "snd (commit mem (run mem [CallEnd (Tx 0)] in_tx) (Tx 0)) = Err (wrap mem TxInvalidError)"
    using ended_tx_is_invalid [OF h, of "CallEnd (Tx 0)" "run mem [CallEnd (Tx 0)] in_tx" mem "[]"]
      a(5)
    by simp
  have d: "dbMutex in_tx" by code_simp
  show ?thesis using h a d 1 2 by blast
qed


text \<open>
  C8. \<^verbatim>\<open>Begin\<close> takes \<^verbatim>\<open>dbMutex\<close> before it opens the backend transaction and
  returns with the mutex held. After a successful \<^verbatim>\<open>Begin\<close>, through any sequence of
  calls that does not commit or end the returned \<^verbatim>\<open>Tx\<close>, the mutex stays held and is
  neither released nor taken, the \<^verbatim>\<open>Tx\<close> stays current, and a further
  \<^verbatim>\<open>Begin\<close> waits. The commit or the end of that \<^verbatim>\<open>Tx\<close> releases the mutex.
\<close>

theorem begin_holds_lease:
  assumes "Begin E c = (c1, r)"
  shows "(r \<noteq> Blocked \<longrightarrow>
            effects c c1 = [Lock, DbLock, SqlBegin (nextRef c), Unlock] \<and> dbMutex c1) \<and>
         (\<forall>t. r = Ok t \<longrightarrow>
            tx c1 = Some (ref t) \<and>
            (\<forall>calls. CallCommit t \<notin> set calls \<and> CallEnd t \<notin> set calls \<longrightarrow>
               dbMutex (run E calls c1) \<and> tx (run E calls c1) = Some (ref t) \<and>
               DbLock \<notin> set (effects c1 (run E calls c1)) \<and>
               DbUnlock \<notin> set (effects c1 (run E calls c1)) \<and>
               snd (Begin E (run E calls c1)) = Blocked) \<and>
            (\<forall>c2 c3 r3. \<not> mu c2 \<and> dbMutex c2 \<and> tx c2 = Some (ref t) \<and>
                 (commit E c2 t = (c3, r3) \<or> end_tx E c2 t = (c3, r3)) \<longrightarrow>
               \<not> dbMutex c3 \<and> tx c3 = None \<and>
               (\<exists>pre. effects c2 c3 = pre @ [DbUnlock, Unlock])))"
proof (intro conjI allI impI)
  assume "r \<noteq> Blocked"
  then show "effects c c1 = [Lock, DbLock, SqlBegin (nextRef c), Unlock]" and "dbMutex c1"
    using assms unfolding Begin_cases
    by (auto simp: effects_def split: if_splits prod.splits option.splits)
next
  fix t assume ok: "r = Ok t"
  then have c1: "tx c1 = Some (ref t)" "dbMutex c1" and t: "t = Tx (ref t)"
    using assms unfolding Begin_cases
    by (auto split: if_splits prod.splits option.splits)
  show "tx c1 = Some (ref t)" by (rule c1)
  {
    fix calls assume "CallCommit t \<notin> set calls \<and> CallEnd t \<notin> set calls"
    then have "CallCommit (Tx (ref t)) \<notin> set calls" "CallEnd (Tx (ref t)) \<notin> set calls"
      using t by simp_all
    from run_held [OF c1(2,1) this, of E]
    obtain xs where h: "dbMutex (run E calls c1)" "tx (run E calls c1) = Some (ref t)"
      "log (run E calls c1) = log c1 @ xs" "leasefree xs" by blast
    show "dbMutex (run E calls c1)" "tx (run E calls c1) = Some (ref t)" by (rule h)+
    show "DbLock \<notin> set (effects c1 (run E calls c1))"
      "DbUnlock \<notin> set (effects c1 (run E calls c1))"
      using h(3,4) leasefree_set [of xs] by (simp_all add: effects_def)
    show "snd (Begin E (run E calls c1)) = Blocked"
      using h(1) by (simp add: Begin_cases)
  }
  {
    fix c2 c3 r3
    assume "\<not> mu c2 \<and> dbMutex c2 \<and> tx c2 = Some (ref t) \<and>
                 (commit E c2 t = (c3, r3) \<or> end_tx E c2 t = (c3, r3))"
    then show "\<not> dbMutex c3" "tx c3 = None" "\<exists>pre. effects c2 c3 = pre @ [DbUnlock, Unlock]"
      by (auto simp: commit_cases end_tx_cases effects_def split: prod.splits option.splits)
  }
qed

theorem begin_holds_lease_witness:
  "snd (Begin mem stored) = Ok (Tx 0) \<and>
   effects stored (fst (Begin mem stored)) = [Lock, DbLock, SqlBegin (nextRef stored), Unlock] \<and>
   CallCommit (Tx 0) \<notin> set [CallInsert vmC, CallUpdate vmB, CallWatch vmA, CallDelete vmA] \<and>
   CallEnd (Tx 0) \<notin> set [CallInsert vmC, CallUpdate vmB, CallWatch vmA, CallDelete vmA] \<and>
   dbMutex (run mem [CallInsert vmC, CallUpdate vmB, CallWatch vmA, CallDelete vmA]
     (fst (Begin mem stored))) \<and>
   snd (Begin mem (run mem [CallInsert vmC, CallUpdate vmB, CallWatch vmA, CallDelete vmA]
     (fst (Begin mem stored)))) = Blocked \<and>
   \<not> mu (fst (Begin mem stored)) \<and>
   \<not> dbMutex (fst (commit mem (fst (Begin mem stored)) (Tx 0))) \<and>
   \<not> dbMutex (fst (end_tx mem (fst (Begin mem stored)) (Tx 0)))"
proof -
  let ?calls = "[CallInsert vmC, CallUpdate vmB, CallWatch vmA, CallDelete vmA]"
  let ?c1 = "fst (Begin mem stored)"
  have b: "Begin mem stored = (?c1, Ok (Tx 0))"
    by (rule pair_fst) code_simp
  have n: "CallCommit (Tx 0) \<notin> set ?calls" "CallEnd (Tx 0) \<notin> set ?calls" by simp_all
  have m: "\<not> mu ?c1" by code_simp
  note T = begin_holds_lease [OF b]
  have 1: "effects stored ?c1 = [Lock, DbLock, SqlBegin (nextRef stored), Unlock]"
    and d1: "dbMutex ?c1"
    using T by simp_all
  have t1: "tx ?c1 = Some (ref (Tx 0))" using T by blast
  have 2: "dbMutex (run mem ?calls ?c1) \<and> snd (Begin mem (run mem ?calls ?c1)) = Blocked"
    using T n by blast
  have 3: "\<not> dbMutex (fst (commit mem ?c1 (Tx 0)))"
    using T m d1 t1 by (metis prod.collapse)
  have 4: "\<not> dbMutex (fst (end_tx mem ?c1 (Tx 0)))"
    using T m d1 t1 by (metis prod.collapse)
  have s: "snd (Begin mem stored) = Ok (Tx 0)" using b by (metis snd_conv)
  show ?thesis using s 1 n 2 m 3 4 by blast
qed




lemma Watch_range_journal:
  "w < length (watchList (journal c)) \<Longrightarrow>
   journal (Watch_range w list c) =
     (journal c)\<lparr>watchList := (watchList (journal c))
        [w := (watchList (journal c) ! w)
           \<lparr>handled := handled (watchList (journal c) ! w) @ map created list\<rparr>]\<rparr>"
proof (induction list arbitrary: c)
  case Nil
  then show ?case by simp
next
  case (Cons m list)
  let ?c1 = "emit (WatchNotify w (created m))
      (c\<lparr>journal := watch_notify (journal c) w (created m)\<rparr>)"
  have len: "w < length (watchList (journal ?c1))"
    using Cons.prems by (simp add: watch_notify_def on_watch_def)
  have "Watch_range w (m # list) c = Watch_range w list ?c1"
    by (simp add: Let_def created_def)
  then show ?case using Cons.IH [OF len] Cons.prems
    by (simp add: watch_notify_def on_watch_def notify_def)
qed


text \<open>
  C2. A \<^verbatim>\<open>Watch\<close> call whose \<^verbatim>\<open>List\<close> returns \<open>list\<close> registers the watch with
  the journal, then lists, then hands the handler one Created event per listed row, in
  the order of the list, then starts the watch, all between \<^verbatim>\<open>r.Lock()\<close> and the
  deferred \<^verbatim>\<open>r.Unlock()\<close>. The handler has received exactly these events and the
  watch is live when the call returns; the watches registered before are as they were.
\<close>

theorem watch_replays_snapshot:
  assumes "\<not> mu c" and "table_List E (db c) DB (kind m) = (d, Inr list)"
    and "Watch E c m = (c', r)"
  shows "r = Ok (length (watchList (journal c))) \<and>
     effects c c' =
       [Lock, JournalWatch (length (watchList (journal c))), TableList DB (kind m)] @
       map (\<lambda>row. WatchNotify (length (watchList (journal c))) (created row)) list @
       [WatchStart (length (watchList (journal c))), Unlock] \<and>
     received (journal c') (length (watchList (journal c))) = map created list \<and>
     length (received (journal c') (length (watchList (journal c)))) = length list \<and>
     live (journal c') (length (watchList (journal c))) \<and>
     take (length (watchList (journal c))) (watchList (journal c')) = watchList (journal c) \<and>
     staged (journal c') = staged (journal c)"
proof -
  let ?w = "length (watchList (journal c))"
  let ?j = "(journal c)\<lparr>watchList := watchList (journal c) @
      [\<lparr>target = kind m, started = False, handled = []\<rparr>]\<rparr>"
  let ?c1 = "emit (TableList DB (kind m))
      ((emit (JournalWatch ?w) ((emit Lock (c\<lparr>mu := True\<rparr>))\<lparr>journal := ?j\<rparr>))\<lparr>db := d\<rparr>)"
  let ?c2 = "Watch_range ?w list ?c1"
  let ?c3 = "emit (WatchStart ?w) (?c2\<lparr>journal := watch_Start (journal ?c2) ?w\<rparr>)"
  have w: "Watch E c m = (emit Unlock (?c3\<lparr>mu := False\<rparr>), Ok ?w)"
    using assms(1,2) unfolding Watch_def journal_Watch_def by (simp add: Let_def)
  have len: "?w < length (watchList (journal ?c1))" by simp
  have j2: "journal ?c2 = ?j\<lparr>watchList := (watchList (journal c))
      @ [\<lparr>target = kind m, started = False, handled = map created list\<rparr>]\<rparr>"
    using Watch_range_journal [OF len, of list] by simp
  have c': "c' = emit Unlock (?c3\<lparr>mu := False\<rparr>)" and r: "r = Ok ?w"
    using w assms(3) by simp_all
  have j': "journal c' = (journal c)\<lparr>watchList := watchList (journal c)
      @ [\<lparr>target = kind m, started = True, handled = map created list\<rparr>]\<rparr>"
    unfolding c' by (simp add: j2 watch_Start_def on_watch_def)
  have l': "log c' = log c @ [Lock, JournalWatch ?w, TableList DB (kind m)] @
       map (\<lambda>row. WatchNotify ?w (created row)) list @ [WatchStart ?w, Unlock]"
    unfolding c' by (simp add: Watch_range_frame created_def)
  show ?thesis using r l' by (simp add: j' received_def live_def effects_def)
qed

theorem watch_replays_snapshot_witness:
  "\<not> mu populated \<and>
   snd (table_List mem (db populated) DB (kind vmA)) = Inr [vmA, vmD] \<and>
   snd (Watch mem populated vmA) = Ok 0 \<and>
   received (journal (fst (Watch mem populated vmA))) 0 = [created vmA, created vmD] \<and>
   live (journal (fst (Watch mem populated vmA))) 0 \<and>
   effects populated (fst (Watch mem populated vmA)) =
     [Lock, JournalWatch 0, TableList DB ''vm'', WatchNotify 0 (created vmA),
      WatchNotify 0 (created vmD), WatchStart 0, Unlock]"
proof -
  have h: "\<not> mu populated" by code_simp
  have l: "table_List mem (db populated) DB (kind vmA) =
      (fst (table_List mem (db populated) DB (kind vmA)), Inr [vmA, vmD])"
    by (rule pair_fst) code_simp
  have n: "length (watchList (journal populated)) = 0" "kind vmA = ''vm''" by code_simp+
  have l': "snd (table_List mem (db populated) DB (kind vmA)) = Inr [vmA, vmD]"
    using l by (metis snd_conv)
  show ?thesis
    using watch_replays_snapshot [OF h l, of "fst (Watch mem populated vmA)"
        "snd (Watch mem populated vmA)"] h l'
    by (simp add: n)
qed

section \<open>Label rows\<close>

text \<open>The in-memory backend through a handle.\<close>

lemma tick_view: "tick d = (a, b) \<Longrightarrow> view a h = view d h \<and> writable a h = writable d h"
  by (auto simp: tick_def view_def writable_def split: option.splits nat.splits handle.splits)

lemma view_store: "view d h \<noteq> None \<Longrightarrow> view (store d h tables) h = Some tables"
  by (auto simp: view_def store_def split: handle.splits option.splits if_splits)

lemma writable_view: "writable d h = Some tables \<Longrightarrow> view d h = Some tables"
  by (auto simp: writable_def split: if_splits)

text \<open>What a successful call of the in-memory mapper does to the tables a handle sees.\<close>

lemma mem_label_Insert_ok:
  assumes "mem_label_Insert d h lb = (d', None)"
  shows "\<exists>ls. lview d h = Some ls \<and> lview d' h = Some (ls @ [lb])"
proof -
  obtain a b where t: "tick d = (a, b)" by fastforce
  from assms t obtain rs ls where w: "writable a h = Some (rs, ls)"
    and d': "d' = store a h (rs, ls @ [lb])"
    unfolding mem_label_Insert_def by (auto split: option.splits if_splits)
  have v: "view a h = Some (rs, ls)" "view d h = Some (rs, ls)"
    using w tick_view [OF t, of h] by (auto dest: writable_view)
  show ?thesis using v d' by (simp add: lview_def view_store)
qed

lemma mem_label_Delete_ok:
  assumes "mem_label_Delete d h lb = (d', None)"
  shows "\<exists>ls. lview d h = Some ls \<and> lview d' h = Some (remove1 lb ls)"
proof -
  obtain a b where t: "tick d = (a, b)" by fastforce
  from assms t obtain rs ls where w: "writable a h = Some (rs, ls)"
    and d': "d' = store a h (rs, remove1 lb ls)"
    unfolding mem_label_Delete_def by (auto split: option.splits if_splits)
  have v: "view a h = Some (rs, ls)" "view d h = Some (rs, ls)"
    using w tick_view [OF t, of h] by (auto dest: writable_view)
  show ?thesis using v d' by (simp add: lview_def view_store)
qed

lemma mem_label_List_ok:
  assumes "mem_label_List d h k p = (d', Inr list)"
  shows "\<exists>ls. lview d h = Some ls \<and> lview d' h = Some ls \<and> list = filter (keyed k p) ls"
proof -
  obtain a b where t: "tick d = (a, b)" by fastforce
  from assms t obtain rs ls where w: "view a h = Some (rs, ls)"
    and d': "d' = a" and l: "list = filter (keyed k p) ls"
    unfolding mem_label_List_def by (auto split: option.splits if_splits)
  show ?thesis using w d' l tick_view [OF t, of h] by (simp add: lview_def)
qed

lemma mem_table_Insert_ok:
  assumes "mem_table_Insert d h m = (d', None)"
  shows "\<exists>ls. lview d h = Some ls \<and> lview d' h = Some ls"
proof -
  obtain a b where t: "tick d = (a, b)" by fastforce
  from assms t obtain rs ls where w: "writable a h = Some (rs, ls)"
    and d': "d' = store a h (rs @ [m], ls)"
    unfolding mem_table_Insert_def by (auto split: option.splits if_splits)
  have v: "view a h = Some (rs, ls)" "view d h = Some (rs, ls)"
    using w tick_view [OF t, of h] by (auto dest: writable_view)
  show ?thesis using v d' by (simp add: lview_def view_store)
qed

lemma mem_table_Update_ok:
  assumes "mem_table_Update d h m = (d', None)"
  shows "\<exists>ls. lview d h = Some ls \<and> lview d' h = Some ls"
proof -
  obtain a b where t: "tick d = (a, b)" by fastforce
  from assms t obtain rs ls where w: "writable a h = Some (rs, ls)"
    and d': "d' = store a h (map (\<lambda>r. if same_key m r then m else r) rs, ls)"
    unfolding mem_table_Update_def by (auto split: option.splits if_splits)
  have v: "view a h = Some (rs, ls)" "view d h = Some (rs, ls)"
    using w tick_view [OF t, of h] by (auto dest: writable_view)
  show ?thesis using v d' by (simp add: lview_def view_store)
qed

lemma mem_table_Delete_ok:
  assumes "mem_table_Delete d h m = (d', None)"
  shows "\<exists>ls. lview d h = Some ls \<and> lview d' h = Some ls"
proof -
  obtain a b where t: "tick d = (a, b)" by fastforce
  from assms t obtain rs ls where w: "writable a h = Some (rs, ls)"
    and d': "d' = store a h (filter (\<lambda>r. \<not> same_key m r) rs, ls)"
    unfolding mem_table_Delete_def by (auto split: option.splits if_splits)
  have v: "view a h = Some (rs, ls)" "view d h = Some (rs, ls)"
    using w tick_view [OF t, of h] by (auto dest: writable_view)
  show ?thesis using v d' by (simp add: lview_def view_store)
qed

lemma mem_table_Get_view:
  assumes "mem_table_Get d h m = (d', g)"
  shows "lview d' h = lview d h"
proof -
  obtain a b where t: "tick d = (a, b)" by fastforce
  from assms t have "d' = a"
    unfolding mem_table_Get_def by (auto split: option.splits if_splits)
  then show ?thesis using tick_view [OF t, of h] by (simp add: lview_def)
qed

lemma mem_simps [simp]:
  "label_Insert mem = mem_label_Insert" "label_Delete mem = mem_label_Delete"
  "label_List mem = mem_label_List" "table_Insert mem = mem_table_Insert"
  "table_Update mem = mem_table_Update" "table_Delete mem = mem_table_Delete"
  "table_Get mem = mem_table_Get" "wrap mem = Wrapped"
  by (simp_all add: mem_def)

text \<open>The log of the label helpers, for every backend.\<close>

lemma insertLabels_range_log:
  "insertLabels_range E h m xs c = (c', None) \<Longrightarrow>
   log c' = log c @ map (LabelInsert h)
     (map (\<lambda>(l, v). \<lparr>Parent = pk m, Kind = kind m, Name = l, Value = v\<rparr>) xs)"
proof (induction xs arbitrary: c)
  case Nil
  then show ?case by simp
next
  case (Cons a xs)
  obtain l v where a: "a = (l, v)" by (cases a)
  let ?lb = "\<lparr>Parent = pk m, Kind = kind m, Name = l, Value = v\<rparr>"
  obtain d e where i: "label_Insert E (db c) h ?lb = (d, e)" by fastforce
  from Cons.prems i
  have r: "insertLabels_range E h m xs (emit (LabelInsert h ?lb) (c\<lparr>db := d\<rparr>)) = (c', None)"
    by (auto simp: a Let_def split: option.splits)
  from Cons.IH [OF r] show ?case by (simp add: a)
qed

lemma deleteLabels_range_log:
  "deleteLabels_range E h list c = (c', None) \<Longrightarrow>
   log c' = log c @ map (LabelDelete h) list"
proof (induction list arbitrary: c)
  case Nil
  then show ?case by simp
next
  case (Cons lb list)
  obtain d e where i: "label_Delete E (db c) h lb = (d, e)" by fastforce
  from Cons.prems i
  have r: "deleteLabels_range E h list (emit (LabelDelete h lb) (c\<lparr>db := d\<rparr>)) = (c', None)"
    by (auto simp: Let_def split: option.splits)
  from Cons.IH [OF r] show ?case by simp
qed

lemma filter_label_effect_maps [simp]:
  "filter label_effect (map (LabelInsert h) ls) = map (LabelInsert h) ls"
  "filter label_effect (map (LabelDelete h) ls) = map (LabelDelete h) ls"
  by (induction ls) simp_all

text \<open>The label helpers on the in-memory backend.\<close>

lemma insertLabels_range_mem:
  "insertLabels_range mem h m xs c = (c', None) \<Longrightarrow> lview (db c) h = Some ls \<Longrightarrow>
   lview (db c') h =
     Some (ls @ map (\<lambda>(l, v). \<lparr>Parent = pk m, Kind = kind m, Name = l, Value = v\<rparr>) xs)"
proof (induction xs arbitrary: c ls)
  case Nil
  then show ?case by simp
next
  case (Cons a xs)
  obtain l v where a: "a = (l, v)" by (cases a)
  let ?lb = "\<lparr>Parent = pk m, Kind = kind m, Name = l, Value = v\<rparr>"
  obtain d e where i: "mem_label_Insert (db c) h ?lb = (d, e)" by fastforce
  from Cons.prems(1) i have e: "e = None"
    and r: "insertLabels_range mem h m xs (emit (LabelInsert h ?lb) (c\<lparr>db := d\<rparr>)) = (c', None)"
    by (auto simp: a Let_def split: option.splits)
  from mem_label_Insert_ok [of "db c" h ?lb d] i e Cons.prems(2)
  have "lview d h = Some (ls @ [?lb])" by simp
  then show ?case using Cons.IH [OF r, of "ls @ [?lb]"] by (simp add: a)
qed

lemma deleteLabels_range_mem:
  "deleteLabels_range mem h list c = (c', None) \<Longrightarrow> lview (db c) h = Some ls \<Longrightarrow>
   lview (db c') h = Some (fold remove1 list ls)"
proof (induction list arbitrary: c ls)
  case Nil
  then show ?case by simp
next
  case (Cons lb list)
  obtain d e where i: "mem_label_Delete (db c) h lb = (d, e)" by fastforce
  from Cons.prems(1) i have e: "e = None"
    and r: "deleteLabels_range mem h list (emit (LabelDelete h lb) (c\<lparr>db := d\<rparr>)) = (c', None)"
    by (auto simp: Let_def split: option.splits)
  from mem_label_Delete_ok [of "db c" h lb d] i e Cons.prems(2)
  have "lview d h = Some (remove1 lb ls)" by simp
  then show ?case using Cons.IH [OF r, of "remove1 lb ls"] by simp
qed

lemma fold_remove1_filter:
  "\<forall>x \<in> set pre. \<not> P x \<Longrightarrow>
   fold remove1 (filter P ls) (pre @ ls) = pre @ filter (\<lambda>x. \<not> P x) ls"
proof (induction ls arbitrary: pre)
  case Nil
  then show ?case by simp
next
  case (Cons a ls)
  show ?case
  proof (cases "P a")
    case True
    then have "a \<notin> set pre" using Cons.prems by auto
    then have "remove1 a (pre @ a # ls) = pre @ ls" by (simp add: remove1_append)
    then show ?thesis using True Cons.IH [OF Cons.prems] by simp
  next
    case False
    then have "\<forall>x \<in> set (pre @ [a]). \<not> P x" using Cons.prems by auto
    from Cons.IH [OF this] show ?thesis using False by simp
  qed
qed

lemma deleteLabels_mem:
  assumes "deleteLabels mem h m c = (c', None)"
  shows "\<exists>ls. lview (db c) h = Some ls \<and>
     lview (db c') h = Some (filter (\<lambda>lb. \<not> keyed (kind m) (pk m) lb) ls) \<and>
     log c' = log c @ LabelList h (kind m) (pk m) #
                map (LabelDelete h) (filter (keyed (kind m) (pk m)) ls)"
proof -
  obtain d g where l: "mem_label_List (db c) h (kind m) (pk m) = (d, g)" by fastforce
  from assms l obtain list where g: "g = Inr list"
    and r: "deleteLabels_range mem h list (emit (LabelList h (kind m) (pk m)) (c\<lparr>db := d\<rparr>))
        = (c', None)"
    unfolding deleteLabels_def by (auto simp: Let_def split: sum.splits)
  from mem_label_List_ok [of "db c" h "kind m" "pk m" d list] l g
  obtain ls where ls: "lview (db c) h = Some ls" "lview d h = Some ls"
    "list = filter (keyed (kind m) (pk m)) ls" by auto
  from deleteLabels_range_mem [OF r, of ls] ls
  have "lview (db c') h = Some (fold remove1 (filter (keyed (kind m) (pk m)) ls) ls)" by simp
  moreover have "log c' = log c @ LabelList h (kind m) (pk m) # map (LabelDelete h) list"
    using deleteLabels_range_log [OF r] by simp
  ultimately show ?thesis
    using ls(1,3) fold_remove1_filter [of "[]" "keyed (kind m) (pk m)" ls] by simp
qed

lemma insertLabels_mem:
  "insertLabels mem h m c = (c', None) \<Longrightarrow> lview (db c) h = Some ls \<Longrightarrow>
   lview (db c') h = Some (ls @ labels_of m)"
  unfolding insertLabels_def labels_of_def by (rule insertLabels_range_mem)

lemma insertLabels_log:
  "insertLabels E h m c = (c', None) \<Longrightarrow> log c' = log c @ map (LabelInsert h) (labels_of m)"
  unfolding insertLabels_def labels_of_def by (rule insertLabels_range_log)

lemma keyed_labels_of [simp]:
  "filter (keyed (kind m) (pk m)) (labels_of m) = labels_of m"
  "filter (\<lambda>lb. \<not> keyed (kind m) (pk m) lb) (labels_of m) = []"
  by (auto simp: labels_of_def keyed_def filter_empty_conv filter_id_conv)

lemma replaceLabels_mem:
  assumes "replaceLabels mem h m c = (c', None)"
  shows "\<exists>ls. lview (db c) h = Some ls \<and>
     lview (db c') h = Some (filter (\<lambda>lb. \<not> keyed (kind m) (pk m) lb) ls @ labels_of m) \<and>
     log c' = log c @ LabelList h (kind m) (pk m) #
                map (LabelDelete h) (filter (keyed (kind m) (pk m)) ls) @
                map (LabelInsert h) (labels_of m)"
proof -
  from assms obtain c1 where d: "deleteLabels mem h m c = (c1, None)"
    and i: "insertLabels mem h m c1 = (c', None)"
    unfolding replaceLabels_def by (auto simp: Let_def split: prod.splits option.splits)
  from deleteLabels_mem [OF d] obtain ls where ls: "lview (db c) h = Some ls"
    "lview (db c1) h = Some (filter (\<lambda>lb. \<not> keyed (kind m) (pk m) lb) ls)"
    "log c1 = log c @ LabelList h (kind m) (pk m) #
                map (LabelDelete h) (filter (keyed (kind m) (pk m)) ls)" by blast
  from insertLabels_mem [OF i ls(2)] insertLabels_log [OF i] ls(1,3) show ?thesis by simp
qed

text \<open>Insert, Update and Delete on the in-memory backend.\<close>

lemma label_rows_lview:
  "lview (db c) (table_DB c) = Some ls \<Longrightarrow> label_rows c m = filter (keyed (kind m) (pk m)) ls"
  by (auto simp: label_rows_def lview_def split: option.splits)

lemma mutation_mem_generic:
  assumes res: "f = (c', Ok ())"
    and call: "\<not> mu c \<Longrightarrow> \<not> (tx c = None \<and> dbMutex c) \<Longrightarrow>
        f = (case body (enter c) of (c2, r) \<Rightarrow> (deferred (tx c = None) c2, r))"
    and blocked: "mu c \<or> tx c = None \<and> dbMutex c \<Longrightarrow> snd f = Blocked"
    and frame: "\<And>c2 r. body (enter c) = (c2, r) \<Longrightarrow> tx c2 = tx (enter c)"
    and pre: "\<And>c2 r. body (enter c) = (c2, r) \<Longrightarrow> \<exists>ys. log c2 = log (enter c) @ ys"
    and eff: "\<And>c2. body (enter c) = (c2, Ok ()) \<Longrightarrow>
        \<exists>ls. lview (db (enter c)) (table_DB c) = Some ls \<and>
          lview (db c2) (table_DB c) = Some (g ls) \<and>
          filter label_effect (log c2) = filter label_effect (log (enter c)) @ x ls"
  shows "\<exists>ls. lview (db c) (table_DB c) = Some ls \<and>
           lview (db c') (table_DB c') = Some (g ls) \<and>
           filter label_effect (effects c c') = x ls"
proof -
  have free: "\<not> mu c" "\<not> (tx c = None \<and> dbMutex c)"
    using res blocked by auto
  obtain c2 where b: "body (enter c) = (c2, Ok ())" and c': "c' = deferred (tx c = None) c2"
    using call [OF free] res by (auto split: prod.splits)
  have t: "table_DB c' = table_DB c"
    using frame [OF b] unfolding c' by (simp add: table_DB_def)
  from pre [OF b] obtain ys where ys: "log c2 = log (enter c) @ ys" by blast
  from eff [OF b] obtain ls where ls: "lview (db c) (table_DB c) = Some ls"
    "lview (db c2) (table_DB c) = Some (g ls)"
    "filter label_effect (log c2) = filter label_effect (log (enter c)) @ x ls" by auto
  from ys ls(3) have "filter label_effect ys = x ls" by simp
  moreover have "log c' = log c @ (Lock # (if tx c = None then [DbLock] else [])) @ ys @
      (if tx c = None then [DbUnlock] else []) @ [Unlock]"
    unfolding c' using ys by simp
  then have "effects c c' = (Lock # (if tx c = None then [DbLock] else [])) @ ys @
      (if tx c = None then [DbUnlock] else []) @ [Unlock]"
    by (rule effects_append)
  ultimately have "filter label_effect (effects c c') = x ls" by simp
  then show ?thesis using ls(1,2) t unfolding c' by auto
qed

lemma Insert_body_mem:
  assumes "Insert_body mem h c m = (c2, Ok ())"
  shows "\<exists>ls. lview (db c) h = Some ls \<and> lview (db c2) h = Some (ls @ labels_of m) \<and>
     filter label_effect (log c2) = filter label_effect (log c) @ map (LabelInsert h) (labels_of m)"
proof -
  obtain d e where p: "mem_table_Insert (db c) h m = (d, e)" by fastforce
  let ?c1 = "emit (TableInsert h m) (c\<lparr>db := d\<rparr>)"
  from assms p obtain c3 where e: "e = None"
    and i: "insertLabels mem h m ?c1 = (c3, None)" and j: "db c2 = db c3"
    and fl: "filter label_effect (log c2) = filter label_effect (log c3)"
    unfolding Insert_body_def
    by (auto simp: Let_def split: prod.splits option.splits if_splits)
  from mem_table_Insert_ok [of "db c" h m d] p e
  obtain ls where ls: "lview (db c) h = Some ls" "lview d h = Some ls" by auto
  from insertLabels_mem [OF i, of ls] insertLabels_log [OF i] ls show ?thesis
    by (simp add: j fl)
qed

lemma Update_body_mem:
  assumes "Update_body mem h c m = (c2, Ok ())"
  shows "\<exists>ls. lview (db c) h = Some ls \<and>
     lview (db c2) h = Some (filter (\<lambda>lb. \<not> keyed (kind m) (pk m) lb) ls @ labels_of m) \<and>
     filter label_effect (log c2) = filter label_effect (log c) @
       LabelList h (kind m) (pk m) # map (LabelDelete h) (filter (keyed (kind m) (pk m)) ls) @
       map (LabelInsert h) (labels_of m)"
proof -
  obtain d0 g where g: "mem_table_Get (db c) h (journal_copy m) = (d0, g)" by fastforce
  let ?c0 = "emit (TableGet h (journal_copy m)) (c\<lparr>db := d0\<rparr>)"
  obtain d e where p: "mem_table_Update d0 h m = (d, e)" by fastforce
  let ?c1 = "emit (TableUpdate h m) (?c0\<lparr>db := d\<rparr>)"
  from assms g p obtain c3 where e: "e = None"
    and i: "replaceLabels mem h m ?c1 = (c3, None)" and j: "db c2 = db c3"
    and fl: "filter label_effect (log c2) = filter label_effect (log c3)"
    unfolding Update_body_def
    by (auto simp: Let_def split: prod.splits option.splits sum.splits if_splits)
  have v0: "lview d0 h = lview (db c) h" using mem_table_Get_view [OF g] .
  from mem_table_Update_ok [of d0 h m d] p e
  obtain ls where ls: "lview d0 h = Some ls" "lview d h = Some ls" by auto
  from replaceLabels_mem [OF i] ls v0 show ?thesis by (auto simp: j fl)
qed

lemma Delete_body_mem:
  assumes "Delete_body mem h c m = (c2, Ok ())"
  shows "\<exists>ls. lview (db c) h = Some ls \<and>
     lview (db c2) h = Some (filter (\<lambda>lb. \<not> keyed (kind m) (pk m) lb) ls) \<and>
     filter label_effect (log c2) = filter label_effect (log c) @
       LabelList h (kind m) (pk m) # map (LabelDelete h) (filter (keyed (kind m) (pk m)) ls)"
proof -
  obtain d e where p: "mem_table_Delete (db c) h m = (d, e)" by fastforce
  let ?c1 = "emit (TableDelete h m) (c\<lparr>db := d\<rparr>)"
  from assms p obtain c3 where e: "e = None"
    and i: "deleteLabels mem h m ?c1 = (c3, None)" and j: "db c2 = db c3"
    and fl: "filter label_effect (log c2) = filter label_effect (log c3)"
    unfolding Delete_body_def
    by (auto simp: Let_def split: prod.splits option.splits if_splits)
  from mem_table_Delete_ok [of "db c" h m d] p e
  obtain ls where ls: "lview (db c) h = Some ls" "lview d h = Some ls" by auto
  from deleteLabels_mem [OF i] ls show ?thesis by (auto simp: j fl)
qed

lemma body_log_prefix:
  "Insert_body E h c m = (c2, r) \<Longrightarrow> \<exists>ys. log c2 = log c @ ys"
  "Update_body E h c m = (c2, r1) \<Longrightarrow> \<exists>ys. log c2 = log c @ ys"
  "Delete_body E h c m = (c2, r2) \<Longrightarrow> \<exists>ys. log c2 = log c @ ys"
  using Insert_body_leasefree Update_body_leasefree Delete_body_leasefree by blast+

text \<open>
  C4, as the code has it, on the in-memory backend. \<open>label_rows c m\<close> are the Label rows
  stored for the key (Kind, Parent) of \<open>m\<close>, as the handle of the call sees them. A
  successful Update lists the rows of the key, deletes each of them and inserts one row
  per entry of the label mapping: afterwards the rows of the key are exactly the mapping.
  A successful Delete lists and deletes them: none remains. A successful Insert only
  inserts one row per entry of the mapping, behind the rows the key already had:
  afterwards the rows of the key are exactly the mapping if the key had none.
\<close>

theorem labels_mirror_after_mutation:
  "(Update mem c m = (c1, Ok ()) \<longrightarrow>
      label_rows c1 m = labels_of m \<and>
      filter label_effect (effects c c1) =
        LabelList (table_DB c) (kind m) (pk m) #
        map (LabelDelete (table_DB c)) (label_rows c m) @
        map (LabelInsert (table_DB c)) (labels_of m)) \<and>
   (Delete mem c m = (c2, Ok ()) \<longrightarrow>
      label_rows c2 m = [] \<and>
      filter label_effect (effects c c2) =
        LabelList (table_DB c) (kind m) (pk m) #
        map (LabelDelete (table_DB c)) (label_rows c m)) \<and>
   (Insert mem c m = (c3, Ok ()) \<longrightarrow>
      label_rows c3 m = label_rows c m @ labels_of m \<and>
      filter label_effect (effects c c3) = map (LabelInsert (table_DB c)) (labels_of m))"
proof (intro conjI impI)
  assume u: "Update mem c m = (c1, Ok ())"
  have "\<exists>ls. lview (db c) (table_DB c) = Some ls \<and> lview (db c1) (table_DB c1) =
      Some (filter (\<lambda>lb. \<not> keyed (kind m) (pk m) lb) ls @ labels_of m) \<and>
      filter label_effect (effects c c1) =
        LabelList (table_DB c) (kind m) (pk m) #
        map (LabelDelete (table_DB c)) (filter (keyed (kind m) (pk m)) ls) @
        map (LabelInsert (table_DB c)) (labels_of m)"
  proof (rule mutation_mem_generic [where body = "\<lambda>c0. Update_body mem (table_DB c) c0 m", OF u])
    show "\<not> mu c \<Longrightarrow> \<not> (tx c = None \<and> dbMutex c) \<Longrightarrow>
        Update mem c m = (case Update_body mem (table_DB c) (enter c) m of
          (c2, r) \<Rightarrow> (deferred (tx c = None) c2, r))"
      by (rule Update_enter)
    show "mu c \<or> tx c = None \<and> dbMutex c \<Longrightarrow> snd (Update mem c m) = Blocked"
      by (auto simp: Update_def Let_def)
    show "\<And>c2 r. Update_body mem (table_DB c) (enter c) m = (c2, r) \<Longrightarrow> tx c2 = tx (enter c)"
      by (simp add: Update_body_frame)
    show "\<And>c2 r. Update_body mem (table_DB c) (enter c) m = (c2, r) \<Longrightarrow>
        \<exists>ys. log c2 = log (enter c) @ ys"
      by (rule body_log_prefix)
    show "\<And>c2. Update_body mem (table_DB c) (enter c) m = (c2, Ok ()) \<Longrightarrow>
        \<exists>ls. lview (db (enter c)) (table_DB c) = Some ls \<and> lview (db c2) (table_DB c) =
          Some (filter (\<lambda>lb. \<not> keyed (kind m) (pk m) lb) ls @ labels_of m) \<and>
          filter label_effect (log c2) = filter label_effect (log (enter c)) @
            LabelList (table_DB c) (kind m) (pk m) #
            map (LabelDelete (table_DB c)) (filter (keyed (kind m) (pk m)) ls) @
            map (LabelInsert (table_DB c)) (labels_of m)"
      by (rule Update_body_mem)
  qed
  then show "label_rows c1 m = labels_of m"
    "filter label_effect (effects c c1) =
        LabelList (table_DB c) (kind m) (pk m) #
        map (LabelDelete (table_DB c)) (label_rows c m) @
        map (LabelInsert (table_DB c)) (labels_of m)"
    by (auto simp: label_rows_lview)
next
  assume d: "Delete mem c m = (c2, Ok ())"
  have "\<exists>ls. lview (db c) (table_DB c) = Some ls \<and> lview (db c2) (table_DB c2) =
      Some (filter (\<lambda>lb. \<not> keyed (kind m) (pk m) lb) ls) \<and>
      filter label_effect (effects c c2) =
        LabelList (table_DB c) (kind m) (pk m) #
        map (LabelDelete (table_DB c)) (filter (keyed (kind m) (pk m)) ls)"
  proof (rule mutation_mem_generic [where body = "\<lambda>c0. Delete_body mem (table_DB c) c0 m", OF d])
    show "\<not> mu c \<Longrightarrow> \<not> (tx c = None \<and> dbMutex c) \<Longrightarrow>
        Delete mem c m = (case Delete_body mem (table_DB c) (enter c) m of
          (c2, r) \<Rightarrow> (deferred (tx c = None) c2, r))"
      by (rule Delete_enter)
    show "mu c \<or> tx c = None \<and> dbMutex c \<Longrightarrow> snd (Delete mem c m) = Blocked"
      by (auto simp: Delete_def Let_def)
    show "\<And>c2 r. Delete_body mem (table_DB c) (enter c) m = (c2, r) \<Longrightarrow> tx c2 = tx (enter c)"
      by (simp add: Delete_body_frame)
    show "\<And>c2 r. Delete_body mem (table_DB c) (enter c) m = (c2, r) \<Longrightarrow>
        \<exists>ys. log c2 = log (enter c) @ ys"
      by (rule body_log_prefix)
    show "\<And>c2. Delete_body mem (table_DB c) (enter c) m = (c2, Ok ()) \<Longrightarrow>
        \<exists>ls. lview (db (enter c)) (table_DB c) = Some ls \<and> lview (db c2) (table_DB c) =
          Some (filter (\<lambda>lb. \<not> keyed (kind m) (pk m) lb) ls) \<and>
          filter label_effect (log c2) = filter label_effect (log (enter c)) @
            LabelList (table_DB c) (kind m) (pk m) #
            map (LabelDelete (table_DB c)) (filter (keyed (kind m) (pk m)) ls)"
      by (rule Delete_body_mem)
  qed
  then show "label_rows c2 m = []"
    "filter label_effect (effects c c2) =
        LabelList (table_DB c) (kind m) (pk m) #
        map (LabelDelete (table_DB c)) (label_rows c m)"
    by (auto simp: label_rows_lview)
next
  assume i: "Insert mem c m = (c3, Ok ())"
  have "\<exists>ls. lview (db c) (table_DB c) = Some ls \<and> lview (db c3) (table_DB c3) =
      Some (ls @ labels_of m) \<and>
      filter label_effect (effects c c3) = map (LabelInsert (table_DB c)) (labels_of m)"
  proof (rule mutation_mem_generic [where body = "\<lambda>c0. Insert_body mem (table_DB c) c0 m"
        and x = "\<lambda>ls. map (LabelInsert (table_DB c)) (labels_of m)", OF i])
    show "\<not> mu c \<Longrightarrow> \<not> (tx c = None \<and> dbMutex c) \<Longrightarrow>
        Insert mem c m = (case Insert_body mem (table_DB c) (enter c) m of
          (c2, r) \<Rightarrow> (deferred (tx c = None) c2, r))"
      by (rule Insert_enter)
    show "mu c \<or> tx c = None \<and> dbMutex c \<Longrightarrow> snd (Insert mem c m) = Blocked"
      by (auto simp: Insert_def Let_def)
    show "\<And>c2 r. Insert_body mem (table_DB c) (enter c) m = (c2, r) \<Longrightarrow> tx c2 = tx (enter c)"
      by (simp add: Insert_body_frame)
    show "\<And>c2 r. Insert_body mem (table_DB c) (enter c) m = (c2, r) \<Longrightarrow>
        \<exists>ys. log c2 = log (enter c) @ ys"
      by (rule body_log_prefix)
    show "\<And>c2. Insert_body mem (table_DB c) (enter c) m = (c2, Ok ()) \<Longrightarrow>
        \<exists>ls. lview (db (enter c)) (table_DB c) = Some ls \<and> lview (db c2) (table_DB c) =
          Some (ls @ labels_of m) \<and>
          filter label_effect (log c2) = filter label_effect (log (enter c)) @
            map (LabelInsert (table_DB c)) (labels_of m)"
      by (rule Insert_body_mem)
  qed
  then show "label_rows c3 m = label_rows c m @ labels_of m"
    "filter label_effect (effects c c3) = map (LabelInsert (table_DB c)) (labels_of m)"
    by (auto simp: label_rows_lview)
qed

theorem labels_mirror_after_mutation_witness:
  "snd (Update mem stored vmB) = Ok () \<and>
   label_rows (fst (Update mem stored vmB)) vmB = labels_of vmB \<and>
   filter label_effect (effects stored (fst (Update mem stored vmB))) =
     [LabelList DB ''vm'' ''a'',
      LabelDelete DB \<lparr>Parent = ''a'', Kind = ''vm'', Name = ''env'', Value = ''prod''\<rparr>,
      LabelInsert DB \<lparr>Parent = ''a'', Kind = ''vm'', Name = ''env'', Value = ''stage''\<rparr>] \<and>
   snd (Delete mem stored vmA) = Ok () \<and>
   label_rows (fst (Delete mem stored vmA)) vmA = [] \<and>
   snd (Insert mem (opened None) vmA) = Ok () \<and>
   label_rows (opened None) vmA = [] \<and>
   label_rows (fst (Insert mem (opened None) vmA)) vmA = labels_of vmA \<and>
   snd (Insert mem (run mem [CallBegin] orphaned) vmE) = Ok () \<and>
   label_rows (fst (Insert mem (run mem [CallBegin] orphaned) vmE)) vmE =
     label_rows (run mem [CallBegin] orphaned) vmE @ labels_of vmE"
proof -
  note T = labels_mirror_after_mutation
  have u: "Update mem stored vmB = (fst (Update mem stored vmB), Ok ())"
    by (rule pair_fst) code_simp
  have d: "Delete mem stored vmA = (fst (Delete mem stored vmA), Ok ())"
    by (rule pair_fst) code_simp
  have i: "Insert mem (opened None) vmA = (fst (Insert mem (opened None) vmA), Ok ())"
    by (rule pair_fst) code_simp
  have i2: "Insert mem (run mem [CallBegin] orphaned) vmE =
      (fst (Insert mem (run mem [CallBegin] orphaned) vmE), Ok ())"
    by (rule pair_fst) code_simp
  have e: "label_rows (opened None) vmA = []"
    by code_simp
  have k: "table_DB stored = DB" "kind vmB = ''vm''" "pk vmB = ''a''"
    "label_rows stored vmB = [\<lparr>Parent = ''a'', Kind = ''vm'', Name = ''env'', Value = ''prod''\<rparr>]"
    "labels_of vmB = [\<lparr>Parent = ''a'', Kind = ''vm'', Name = ''env'', Value = ''stage''\<rparr>]"
    by code_simp+
  have 1: "label_rows (fst (Update mem stored vmB)) vmB = labels_of vmB \<and>
      filter label_effect (effects stored (fst (Update mem stored vmB))) =
        LabelList (table_DB stored) (kind vmB) (pk vmB) #
        map (LabelDelete (table_DB stored)) (label_rows stored vmB) @
        map (LabelInsert (table_DB stored)) (labels_of vmB)"
    using T [of stored vmB "fst (Update mem stored vmB)", THEN conjunct1] u by blast
  have l1: "filter label_effect (effects stored (fst (Update mem stored vmB))) =
     [LabelList DB ''vm'' ''a'',
      LabelDelete DB \<lparr>Parent = ''a'', Kind = ''vm'', Name = ''env'', Value = ''prod''\<rparr>,
      LabelInsert DB \<lparr>Parent = ''a'', Kind = ''vm'', Name = ''env'', Value = ''stage''\<rparr>]"
    using 1 [THEN conjunct2] unfolding k by simp
  have 2: "label_rows (fst (Delete mem stored vmA)) vmA = []"
    using T [of stored vmA _ "fst (Delete mem stored vmA)", THEN conjunct2, THEN conjunct1] d
    by blast
  have 3: "label_rows (fst (Insert mem (opened None) vmA)) vmA = labels_of vmA"
    using T [of "opened None" vmA _ _ "fst (Insert mem (opened None) vmA)",
        THEN conjunct2, THEN conjunct2] i e by simp
  have 4: "label_rows (fst (Insert mem (run mem [CallBegin] orphaned) vmE)) vmE =
     label_rows (run mem [CallBegin] orphaned) vmE @ labels_of vmE"
    using T [of "run mem [CallBegin] orphaned" vmE _ _
        "fst (Insert mem (run mem [CallBegin] orphaned) vmE)",
        THEN conjunct2, THEN conjunct2] i2 by blast
  have s: "snd (Update mem stored vmB) = Ok ()" "snd (Delete mem stored vmA) = Ok ()"
    "snd (Insert mem (opened None) vmA) = Ok ()"
    "snd (Insert mem (run mem [CallBegin] orphaned) vmE) = Ok ()"
    using u d i i2 by (metis snd_conv)+
  show ?thesis using s e 1 [THEN conjunct1] l1 2 3 4 by blast
qed

text \<open>
  C4 as the specification states it, for Insert: after every successful Insert the Label
  rows of the key are exactly the label mapping of the model. In \<open>orphaned\<close> the key of
  \<open>vmA\<close> has no row and one stale label row. The Insert of \<open>vmE\<close>, which has that key,
  succeeds, and the key then has the stale row and the row of \<open>vmE\<close>: a strict superset
  of the mapping.
\<close>

theorem insert_keeps_stale_labels:
  "snd (Insert mem orphaned vmE) = Ok () \<and>
   label_rows orphaned vmE =
     [\<lparr>Parent = ''a'', Kind = ''vm'', Name = ''env'', Value = ''prod''\<rparr>] \<and>
   label_rows (fst (Insert mem orphaned vmE)) vmE =
     [\<lparr>Parent = ''a'', Kind = ''vm'', Name = ''env'', Value = ''prod''\<rparr>,
      \<lparr>Parent = ''a'', Kind = ''vm'', Name = ''tier'', Value = ''gold''\<rparr>] \<and>
   labels_of vmE = [\<lparr>Parent = ''a'', Kind = ''vm'', Name = ''tier'', Value = ''gold''\<rparr>] \<and>
   label_rows (fst (Insert mem orphaned vmE)) vmE \<noteq> labels_of vmE"
  by code_simp

end
